theory Spec2Isabelle
  imports Complex_Main "HOL-Library.Word" "HOL-Library.Sublist"
begin

section \<open>The llama.cpp bridge of the inference engine (llama\_jni.cpp)\<close>

text \<open>
  The bridge keeps five process-wide variables, guarded by one mutex, and drives the
  llama.cpp library through them. The model below follows the source function by
  function. The library itself is not part of the repository: it is a parameter of the
  model, a record of functions over three abstract types, \<open>'m\<close> (a loaded model with its
  vocabulary), \<open>'c\<close> (the contents of an evaluation context: key/value cache and logits)
  and \<open>'s\<close> (the state of a sampler chain). Every operation holds the mutex for its whole
  body, so an operation is a function from the engine state to the engine state. Only
  \<open>cancelGeneration\<close> and the three observers run without the mutex; the one store that
  can reach a running generation, into the cancellation flag, enters the model as a
  schedule of cancel requests, read at the one poll of each loop iteration.
\<close>

subsection \<open>std::string searches\<close>

text \<open>
  \<open>npos\<close> is \<open>None\<close>. \<open>s.find(pat, pos)\<close> is the lowest index \<open>i \<ge> pos\<close> at which
  \<open>pat\<close> occurs in \<open>s\<close>, and \<open>npos\<close> when \<open>pos\<close> lies beyond the end; \<open>s.rfind(pat)\<close> is
  the highest index at which \<open>pat\<close> occurs.
\<close>

definition occurs_at :: "string \<Rightarrow> string \<Rightarrow> nat \<Rightarrow> bool" where
  "occurs_at s pat i = (take (length pat) (drop i s) = pat)"

definition str_find :: "string \<Rightarrow> string \<Rightarrow> nat \<Rightarrow> nat option" where
  "str_find s pat from =
     (if length s < from \<or> length s < length pat then None
      else List.find (occurs_at s pat) [from ..< Suc (length s - length pat)])"

definition str_rfind :: "string \<Rightarrow> string \<Rightarrow> nat option" where
  "str_rfind s pat =
     (if length s < length pat then None
      else List.find (occurs_at s pat) (rev [0 ..< Suc (length s - length pat)]))"

text \<open>
  \<open>size_t\<close> is unsigned and 64 bits wide on the 64-bit Android targets; a subtraction
  below zero wraps around.
\<close>

type_synonym size_t = "64 word"

definition size_of :: "string \<Rightarrow> size_t" where
  "size_of s = word_of_nat (length s)"

text \<open>
  A \<open>std::string\<close> holds any bytes. \<open>s.c_str()\<close> read as a C string, which is how
  \<open>NewStringUTF\<close> reads its argument, ends before the first zero byte.
\<close>

definition c_str :: "string \<Rightarrow> string" where
  "c_str s = takeWhile (\<lambda>c. c \<noteq> CHR 0x00) s"

subsection \<open>Batches\<close>

type_synonym llama_token = int
type_synonym llama_pos = int

text \<open>
  \<open>llama_batch\<close> of llama.h: parallel arrays and the number of entries in use. An
  array is a list as long as the allocation.
\<close>

record llama_batch =
  n_tokens :: int
  token :: "llama_token list"
  pos :: "llama_pos list"
  n_seq_id :: "int list"
  seq_id :: "int list list"
  logits :: "int list"

text \<open>
  \<open>llama_batch_init(n_tokens_alloc, 0, n_seq_max)\<close> allocates the arrays and sets
  \<open>n_tokens\<close> to 0. The fresh memory is not initialised; the model fills it with zeros,
  and no property below reads a slot that has not been written.
\<close>

definition llama_batch_init :: "nat \<Rightarrow> nat \<Rightarrow> llama_batch" where
  "llama_batch_init n_tokens_alloc n_seq_max =
     \<lparr> n_tokens = 0,
       token = replicate n_tokens_alloc 0,
       pos = replicate n_tokens_alloc 0,
       n_seq_id = replicate n_tokens_alloc 0,
       seq_id = replicate n_tokens_alloc (replicate n_seq_max 0),
       logits = replicate n_tokens_alloc 0 \<rparr>"

text \<open>
  A store through an index outside the allocation is undefined behaviour in C++; the
  model returns \<open>None\<close> for it.
\<close>

definition store :: "'a list \<Rightarrow> int \<Rightarrow> 'a \<Rightarrow> 'a list option" where
  "store xs i v = (if 0 \<le> i \<and> nat i < length xs then Some (xs[nat i := v]) else None)"

definition batch_add_token ::
  "llama_batch \<Rightarrow> llama_token \<Rightarrow> llama_pos \<Rightarrow> bool \<Rightarrow> llama_batch option" where
  "batch_add_token batch tok p lg =
     (let idx = n_tokens batch in
      case store (token batch) idx tok of None \<Rightarrow> None | Some token' \<Rightarrow>
      case store (pos batch) idx p of None \<Rightarrow> None | Some pos' \<Rightarrow>
      case store (n_seq_id batch) idx 1 of None \<Rightarrow> None | Some n_seq_id' \<Rightarrow>
      if \<not> (0 \<le> idx \<and> nat idx < length (seq_id batch)) then None else
      case store (seq_id batch ! nat idx) 0 0 of None \<Rightarrow> None | Some ids \<Rightarrow>
      case store (logits batch) idx (if lg then 1 else 0) of None \<Rightarrow> None | Some logits' \<Rightarrow>
        Some (batch\<lparr> token := token', pos := pos', n_seq_id := n_seq_id',
                     seq_id := (seq_id batch)[nat idx := ids],
                     logits := logits', n_tokens := idx + 1 \<rparr>))"

text \<open>
  The prompt loop of both generation functions:
  \<open>for (int i = 0; i < n_tokens; i++) batch_add_token(batch, tokens[i], i, false);\<close>
  entered here at index \<open>i\<close> with the tokens from \<open>i\<close> on.
\<close>

fun add_prompt_tokens :: "llama_batch \<Rightarrow> llama_token list \<Rightarrow> int \<Rightarrow> llama_batch option" where
  "add_prompt_tokens batch [] i = Some batch"
| "add_prompt_tokens batch (t # ts) i =
     (case batch_add_token batch t i False of
        None \<Rightarrow> None
      | Some batch' \<Rightarrow> add_prompt_tokens batch' ts (i + 1))"

text \<open>
  The whole prompt batch: allocation for \<open>tokens.size()\<close> entries, the loop, then
  \<open>batch.logits[batch.n_tokens - 1] = true\<close>.
\<close>

definition prompt_batch :: "llama_token list \<Rightarrow> llama_batch option" where
  "prompt_batch tokens =
     (case add_prompt_tokens (llama_batch_init (length tokens) 1) tokens 0 of
        None \<Rightarrow> None
      | Some batch \<Rightarrow>
          (case store (logits batch) (n_tokens batch - 1) 1 of
             None \<Rightarrow> None
           | Some logits' \<Rightarrow> Some (batch\<lparr> logits := logits' \<rparr>)))"

text \<open>
  The batch of one generated token: \<open>llama_batch_init(1, 0, 1)\<close> and
  \<open>batch_add_token(single, new_token, n_cur, true)\<close>.
\<close>

definition single_batch :: "llama_token \<Rightarrow> llama_pos \<Rightarrow> llama_batch option" where
  "single_batch new_token n_cur = batch_add_token (llama_batch_init 1 1) new_token n_cur True"

subsection \<open>The library\<close>

text \<open>
  The samplers that \<open>llama_sampler_init_top_p(p, min_keep)\<close>, \<open>llama_sampler_init_temp(t)\<close>
  and \<open>llama_sampler_init_dist(seed)\<close> build.
\<close>

datatype llama_sampler =
    llama_sampler_init_top_p real nat
  | llama_sampler_init_temp real
  | llama_sampler_init_dist nat

text \<open>
  The functions of llama.h that the bridge calls. \<open>llama_model_load_from_file\<close> gives
  the progress values it reports to the callback, in order, and the model or null;
  \<open>llama_init_from_model\<close> takes the model, \<open>n_ctx\<close> and the thread count;
  \<open>llama_tokenize\<close> takes the text and the capacity of the output vector and gives its
  return value and the tokens it wrote; \<open>llama_decode\<close> gives its status and the new
  contents of the context; \<open>llama_token_to_piece\<close> takes the buffer size and gives its
  return value and the bytes it wrote.
\<close>

record ('m, 'c, 's) llama =
  llama_model_load_from_file :: "string \<Rightarrow> real list \<times> 'm option"
  llama_init_from_model :: "'m \<Rightarrow> nat \<Rightarrow> int \<Rightarrow> 'c option"
  llama_tokenize :: "'m \<Rightarrow> string \<Rightarrow> nat \<Rightarrow> int \<times> llama_token list"
  llama_memory_clear :: "'c \<Rightarrow> 'c"
  llama_decode :: "'c \<Rightarrow> llama_batch \<Rightarrow> int \<times> 'c"
  llama_sampler_chain_init :: "'s"
  llama_sampler_chain_add :: "'s \<Rightarrow> llama_sampler \<Rightarrow> 's"
  llama_sampler_sample :: "'s \<Rightarrow> 'c \<Rightarrow> llama_token \<times> 's"
  llama_vocab_is_eog :: "'m \<Rightarrow> llama_token \<Rightarrow> bool"
  llama_token_to_piece :: "'m \<Rightarrow> llama_token \<Rightarrow> nat \<Rightarrow> int \<times> string"

subsection \<open>Global state\<close>

record ('m, 'c) engine =
  g_model :: "'m option"
  g_ctx :: "'c option"
  g_is_generating :: bool
  g_cancel_generation :: bool
  g_load_progress :: real

text \<open>The static initialisers.\<close>

definition initial :: "('m, 'c) engine" where
  "initial = \<lparr> g_model = None, g_ctx = None, g_is_generating = False,
               g_cancel_generation = False, g_load_progress = 0 \<rparr>"

text \<open>The progress callback stores the value and lets the load go on.\<close>

definition model_load_progress :: "real \<Rightarrow> ('m, 'c) engine \<Rightarrow> bool \<times> ('m, 'c) engine" where
  "model_load_progress progress s = (True, s\<lparr> g_load_progress := progress \<rparr>)"

text \<open>
  The library calls the callback once for each value it reports; a callback that
  answers false would end the load, which \<open>model_load_progress\<close> never does.
\<close>

fun report_progress :: "real list \<Rightarrow> ('m, 'c) engine \<Rightarrow> ('m, 'c) engine" where
  "report_progress [] s = s"
| "report_progress (p # ps) s =
     (case model_load_progress p s of
        (True, s') \<Rightarrow> report_progress ps s'
      | (False, s') \<Rightarrow> s')"

subsection \<open>Model lifecycle and observers\<close>

text \<open>
  \<open>loadModel\<close>: the path argument is \<open>None\<close> when \<open>GetStringUTFChars\<close> returns null.
\<close>

definition loadModel ::
  "('m, 'c, 's) llama \<Rightarrow> string option \<Rightarrow> int \<Rightarrow> ('m, 'c) engine \<Rightarrow> bool \<times> ('m, 'c) engine" where
  "loadModel L modelPath nThreads s =
     (let s1 = (if g_ctx s \<noteq> None then s\<lparr> g_ctx := None \<rparr> else s);
          s2 = (if g_model s1 \<noteq> None then s1\<lparr> g_model := None \<rparr> else s1)
      in case modelPath of
           None \<Rightarrow> (False, s2)
         | Some path \<Rightarrow>
             (let s3 = s2\<lparr> g_load_progress := 0 \<rparr>;
                  (reports, loaded) = llama_model_load_from_file L path;
                  s4 = (report_progress reports s3)\<lparr> g_model := loaded \<rparr>
              in case loaded of
                   None \<Rightarrow> (False, s4)
                 | Some m \<Rightarrow>
                     (let s5 = s4\<lparr> g_ctx := llama_init_from_model L m 2048 nThreads \<rparr>
                      in if g_ctx s5 = None then (False, s5\<lparr> g_model := None \<rparr>)
                         else (True, s5\<lparr> g_load_progress := 1 \<rparr>))))"

definition cancelGeneration :: "('m, 'c) engine \<Rightarrow> ('m, 'c) engine" where
  "cancelGeneration s = s\<lparr> g_cancel_generation := True \<rparr>"

definition unloadModel :: "('m, 'c) engine \<Rightarrow> ('m, 'c) engine" where
  "unloadModel s =
     (let s1 = (if g_ctx s \<noteq> None then s\<lparr> g_ctx := None \<rparr> else s);
          s2 = (if g_model s1 \<noteq> None then s1\<lparr> g_model := None \<rparr> else s1)
      in s2\<lparr> g_load_progress := 0 \<rparr>)"

definition isModelLoaded :: "('m, 'c) engine \<Rightarrow> bool" where
  "isModelLoaded s = (g_model s \<noteq> None \<and> g_ctx s \<noteq> None)"

definition getLoadProgress :: "('m, 'c) engine \<Rightarrow> real" where
  "getLoadProgress s = g_load_progress s"

definition isGenerating :: "('m, 'c) engine \<Rightarrow> bool" where
  "isGenerating s = g_is_generating s"

subsection \<open>The generation loop\<close>

text \<open>
  The loop-carried variables of both generation functions. \<open>ctx\<close> is the contents of
  \<open>*g_ctx\<close>, \<open>cancel\<close> the atomic \<open>g_cancel_generation\<close>, \<open>accumulated\<close> the text built so
  far (the local \<open>result\<close> of \<open>generate\<close>, \<open>accumulated\<close> of \<open>generateStreaming\<close>). Two
  histories record what the loop asked of the library: the tokens that
  \<open>llama_sampler_sample\<close> returned and the batches handed to \<open>llama_decode\<close>. The streaming
  loop has one more history, the fragments passed to the \<open>onToken\<close> callback.
\<close>

record ('c, 's) loop_state =
  ctx :: 'c
  smpl :: 's
  accumulated :: string
  n_cur :: int
  cancel :: bool
  sampled :: "llama_token list"
  evaluated :: "llama_batch list"

record ('c, 's) stream_state = "('c, 's) loop_state" +
  sink :: "string list"

text \<open>The ways out of a generation call, one for each \<open>return\<close> and \<open>break\<close>.\<close>

datatype exit_path =
    Model_absent
  | Callback_missing
  | Tokenize_failed
  | Prompt_eval_failed
  | Cancelled
  | End_of_generation
  | Stop_string
  | Sink_failed
  | Token_eval_failed
  | Budget_exhausted

text \<open>
  One pass through a loop body ends in \<open>break\<close>, runs to the end of the body, or stores
  out of bounds.
\<close>

datatype 'a step = Break exit_path 'a | Continue 'a | Undefined

text \<open>
  \<open>cancelGeneration\<close> runs on other threads without the mutex. \<open>cancel_req i\<close> tells
  whether such a call has stored into the flag since the previous poll (for \<open>i = 0\<close>:
  since the store that clears the flag at entry) when iteration \<open>i\<close> loads it.
\<close>

definition poll_cancel ::
  "(nat \<Rightarrow> bool) \<Rightarrow> int \<Rightarrow> ('c, 's, 'z) loop_state_scheme \<Rightarrow> ('c, 's, 'z) loop_state_scheme" where
  "poll_cancel cancel_req i st = st\<lparr> cancel := cancel st \<or> cancel_req (nat i) \<rparr>"

definition sample_token ::
  "('m, 'c, 's) llama \<Rightarrow> ('c, 's, 'z) loop_state_scheme \<Rightarrow>
     llama_token \<times> ('c, 's, 'z) loop_state_scheme" where
  "sample_token L st =
     (let (new_token, smpl') = llama_sampler_sample L (smpl st) (ctx st)
      in (new_token, st\<lparr> smpl := smpl', sampled := sampled st @ [new_token] \<rparr>))"

text \<open>
  \<open>llama_token_to_piece\<close> into \<open>char buf[256]\<close>; \<open>std::string piece(buf, n)\<close> exists
  only for \<open>n > 0\<close> and is \<open>n\<close> bytes long. By its contract the library has written
  those \<open>n\<close> bytes; where the parameter gives fewer, the model fills up with zero bytes.
\<close>

definition token_piece :: "('m, 'c, 's) llama \<Rightarrow> 'm \<Rightarrow> llama_token \<Rightarrow> string option" where
  "token_piece L vocab new_token =
     (let (n, buf) = llama_token_to_piece L vocab new_token 256
      in if 0 < n then Some (take (nat n) (buf @ replicate (nat n) (CHR 0x00))) else None)"

text \<open>The end of the loop body: evaluate the new token, then \<open>n_cur++\<close>.\<close>

definition evaluate_token ::
  "('m, 'c, 's) llama \<Rightarrow> llama_token \<Rightarrow> ('c, 's, 'z) loop_state_scheme \<Rightarrow>
     ('c, 's, 'z) loop_state_scheme step" where
  "evaluate_token L new_token st =
     (case single_batch new_token (n_cur st) of
        None \<Rightarrow> Undefined
      | Some single \<Rightarrow>
          (let (rc, ctx') = llama_decode L (ctx st) single;
               st' = st\<lparr> ctx := ctx', evaluated := evaluated st @ [single] \<rparr>
           in if rc \<noteq> 0 then Break Token_eval_failed st'
              else Continue (st'\<lparr> n_cur := n_cur st' + 1 \<rparr>)))"

text \<open>
  The stop-string check of \<open>generate\<close>: the search starts at
  \<open>result.length() - stop.length() - 1\<close>, computed in \<open>size_t\<close>; on a match the text is cut
  at the last occurrence.
\<close>

fun stop_check :: "string \<Rightarrow> string list \<Rightarrow> string \<times> bool" where
  "stop_check result [] = (result, False)"
| "stop_check result (stop # stop_strs) =
     (if length stop \<le> length result \<and>
         str_find result stop (unat (size_of result - size_of stop - 1)) \<noteq> None
      then (case str_rfind result stop of
              Some p \<Rightarrow> (take p result, True)
            | None \<Rightarrow> (result, True))
      else stop_check result stop_strs)"

definition generate_step ::
  "('m, 'c, 's) llama \<Rightarrow> (nat \<Rightarrow> bool) \<Rightarrow> 'm \<Rightarrow> string list \<Rightarrow> int \<Rightarrow>
     ('c, 's) loop_state \<Rightarrow> ('c, 's) loop_state step" where
  "generate_step L cancel_req vocab stop_strs i st =
     (let st0 = poll_cancel cancel_req i st
      in if cancel st0 then Break Cancelled st0
         else
           (let (new_token, st1) = sample_token L st0
            in if llama_vocab_is_eog L vocab new_token then Break End_of_generation st1
               else
                 (case token_piece L vocab new_token of
                    None \<Rightarrow> evaluate_token L new_token st1
                  | Some piece \<Rightarrow>
                      (let (result', should_stop) =
                             stop_check (accumulated st1 @ piece) stop_strs;
                           st2 = st1\<lparr> accumulated := result' \<rparr>
                       in if should_stop then Break Stop_string st2
                          else evaluate_token L new_token st2))))"

function generate_loop ::
  "('m, 'c, 's) llama \<Rightarrow> (nat \<Rightarrow> bool) \<Rightarrow> 'm \<Rightarrow> string list \<Rightarrow> int \<Rightarrow> int \<Rightarrow>
     ('c, 's) loop_state \<Rightarrow> (('c, 's) loop_state \<times> exit_path) option" where
  "generate_loop L cancel_req vocab stop_strs maxTokens i st =
     (if i < maxTokens then
        (case generate_step L cancel_req vocab stop_strs i st of
           Break e st' \<Rightarrow> Some (st', e)
         | Continue st' \<Rightarrow> generate_loop L cancel_req vocab stop_strs maxTokens (i + 1) st'
         | Undefined \<Rightarrow> None)
      else Some (st, Budget_exhausted))"
  by pat_completeness auto
termination
  by (relation "measure (\<lambda>(L, cancel_req, vocab, stop_strs, maxTokens, i, st). nat (maxTokens - i))")
     auto

declare generate_loop.simps [simp del]

subsection \<open>generate\<close>

text \<open>
  What a generation call leaves behind: the engine state, the way out, the two
  histories and \<open>text_acc\<close>, the text accumulated when the call returns (the local
  \<open>result\<close> of \<open>generate\<close>, \<open>accumulated\<close> of \<open>generateStreaming\<close>; empty on a return that
  precedes their declaration). \<open>generate\<close> also returns a string, \<open>text_out\<close>: the bytes
  that \<open>NewStringUTF\<close> reads from its argument. \<open>generateStreaming\<close> returns nothing and
  leaves the fragments that \<open>onToken\<close> received. A Java string is identified with the
  bytes of its modified UTF-8 form, which hold no zero byte.
\<close>

record ('m, 'c) outcome =
  engine_after :: "('m, 'c) engine"
  exit_by :: exit_path
  tokens_sampled :: "llama_token list"
  batches_evaluated :: "llama_batch list"
  text_acc :: string

record ('m, 'c) returned = "('m, 'c) outcome" +
  text_out :: string

record ('m, 'c) streamed = "('m, 'c) outcome" +
  delivered :: "string list"

text \<open>
  \<open>std::vector<llama_token> tokens(prompt_str.size() + 128)\<close> starts as zeros, receives
  what the tokenizer wrote, and is resized to \<open>n_tokens\<close>.
\<close>

definition prompt_tokens :: "nat \<Rightarrow> llama_token list \<Rightarrow> nat \<Rightarrow> llama_token list" where
  "prompt_tokens capacity written n = take n (take capacity written @ replicate n 0)"

definition sampler_chain :: "('m, 'c, 's) llama \<Rightarrow> real \<Rightarrow> real \<Rightarrow> 's" where
  "sampler_chain L topP temperature =
     llama_sampler_chain_add L
       (llama_sampler_chain_add L
          (llama_sampler_chain_add L (llama_sampler_chain_init L)
             (llama_sampler_init_top_p topP 1))
          (llama_sampler_init_temp temperature))
       (llama_sampler_init_dist 42)"

definition collect_stop_strings :: "string list option \<Rightarrow> string list" where
  "collect_stop_strings stopStrings = (case stopStrings of None \<Rightarrow> [] | Some strs \<Rightarrow> strs)"

text \<open>
  \<open>generate\<close>. \<open>None\<close> is undefined behaviour (a store outside a batch). The
  arguments are the bytes of the prompt, the budget, the sampling parameters and the
  stop-string array (\<open>None\<close> for a null array).
\<close>

definition generate ::
  "('m, 'c, 's) llama \<Rightarrow> (nat \<Rightarrow> bool) \<Rightarrow> string \<Rightarrow> int \<Rightarrow> real \<Rightarrow> real \<Rightarrow>
     string list option \<Rightarrow> ('m, 'c) engine \<Rightarrow> ('m, 'c) returned option" where
  "generate L cancel_req prompt maxTokens temperature topP stopStrings s =
     (case (g_model s, g_ctx s) of
        (Some vocab, Some c) \<Rightarrow>
          (let s1 = s\<lparr> g_is_generating := True, g_cancel_generation := False \<rparr>;
               stop_strs = collect_stop_strings stopStrings;
               (n_tok, written) = llama_tokenize L vocab prompt (length prompt + 128)
           in if n_tok < 0 then
                Some \<lparr> engine_after = s1\<lparr> g_is_generating := False \<rparr>,
                       exit_by = Tokenize_failed, tokens_sampled = [],
                       batches_evaluated = [], text_acc = [], text_out = [] \<rparr>
              else
                (let tokens = prompt_tokens (length prompt + 128) written (nat n_tok);
                     c1 = llama_memory_clear L c
                 in case prompt_batch tokens of
                      None \<Rightarrow> None
                    | Some batch \<Rightarrow>
                        (let (rc, c2) = llama_decode L c1 batch
                         in if rc \<noteq> 0 then
                              Some \<lparr> engine_after =
                                       s1\<lparr> g_ctx := Some c2, g_is_generating := False \<rparr>,
                                     exit_by = Prompt_eval_failed, tokens_sampled = [],
                                     batches_evaluated = [batch], text_acc = [],
                                     text_out = [] \<rparr>
                            else
                              (case generate_loop L cancel_req vocab stop_strs maxTokens 0
                                      \<lparr> ctx = c2, smpl = sampler_chain L topP temperature,
                                        accumulated = [], n_cur = n_tok,
                                        cancel = g_cancel_generation s1, sampled = [],
                                        evaluated = [batch] \<rparr> of
                                 None \<Rightarrow> None
                               | Some (st, e) \<Rightarrow>
                                   Some \<lparr> engine_after =
                                            s1\<lparr> g_ctx := Some (ctx st),
                                                g_cancel_generation := cancel st,
                                                g_is_generating := False \<rparr>,
                                          exit_by = e, tokens_sampled = sampled st,
                                          batches_evaluated = evaluated st,
                                          text_acc = accumulated st,
                                          text_out = c_str (accumulated st) \<rparr>))))
      | _ \<Rightarrow>
          Some \<lparr> engine_after = s, exit_by = Model_absent, tokens_sampled = [],
                 batches_evaluated = [], text_acc = [], text_out = [] \<rparr>)"

subsection \<open>generateStreaming\<close>

text \<open>
  The Java side of the streaming call: whether \<open>GetMethodID\<close> finds \<open>onToken\<close>, whether
  \<open>NewStringUTF\<close> yields a string for a fragment, and whether an exception is pending
  after \<open>onToken\<close> has received its fragments (the argument lists them, the latest last).
\<close>

record callback =
  GetMethodID :: bool
  NewStringUTF :: "string \<Rightarrow> bool"
  ExceptionCheck :: "string list \<Rightarrow> bool"

text \<open>
  The stop-string check of \<open>generateStreaming\<close>: \<open>accumulated.rfind(stop)\<close> for each
  stop string in turn.
\<close>

fun streaming_stop_check :: "string \<Rightarrow> string list \<Rightarrow> bool" where
  "streaming_stop_check acc [] = False"
| "streaming_stop_check acc (stop # stop_strs) =
     (if str_rfind acc stop \<noteq> None then True
      else streaming_stop_check acc stop_strs)"

definition streaming_step ::
  "('m, 'c, 's) llama \<Rightarrow> callback \<Rightarrow> (nat \<Rightarrow> bool) \<Rightarrow> 'm \<Rightarrow> string list \<Rightarrow> int \<Rightarrow>
     ('c, 's) stream_state \<Rightarrow> ('c, 's) stream_state step" where
  "streaming_step L J cancel_req vocab stop_strs i st =
     (let st0 = poll_cancel cancel_req i st
      in if cancel st0 then Break Cancelled st0
         else
           (let (new_token, st1) = sample_token L st0
            in if llama_vocab_is_eog L vocab new_token then Break End_of_generation st1
               else
                 (case token_piece L vocab new_token of
                    None \<Rightarrow> evaluate_token L new_token st1
                  | Some decoded \<Rightarrow>
                      (let st2 = st1\<lparr> accumulated := accumulated st1 @ decoded \<rparr>;
                           should_stop = streaming_stop_check (accumulated st2) stop_strs;
                           piece = (if should_stop then [] else decoded)
                       in if piece \<noteq> [] \<and> NewStringUTF J (c_str piece) then
                            (let st3 = st2\<lparr> sink := sink st2 @ [c_str piece] \<rparr>
                             in if ExceptionCheck J (sink st3) then Break Sink_failed st3
                                else if should_stop then Break Stop_string st3
                                else evaluate_token L new_token st3)
                          else if should_stop then Break Stop_string st2
                          else evaluate_token L new_token st2))))"

function streaming_loop ::
  "('m, 'c, 's) llama \<Rightarrow> callback \<Rightarrow> (nat \<Rightarrow> bool) \<Rightarrow> 'm \<Rightarrow> string list \<Rightarrow> int \<Rightarrow> int \<Rightarrow>
     ('c, 's) stream_state \<Rightarrow> (('c, 's) stream_state \<times> exit_path) option" where
  "streaming_loop L J cancel_req vocab stop_strs maxTokens i st =
     (if i < maxTokens then
        (case streaming_step L J cancel_req vocab stop_strs i st of
           Break e st' \<Rightarrow> Some (st', e)
         | Continue st' \<Rightarrow> streaming_loop L J cancel_req vocab stop_strs maxTokens (i + 1) st'
         | Undefined \<Rightarrow> None)
      else Some (st, Budget_exhausted))"
  by pat_completeness auto
termination
  by (relation
        "measure (\<lambda>(L, J, cancel_req, vocab, stop_strs, maxTokens, i, st). nat (maxTokens - i))")
     auto

declare streaming_loop.simps [simp del]

definition generateStreaming ::
  "('m, 'c, 's) llama \<Rightarrow> callback \<Rightarrow> (nat \<Rightarrow> bool) \<Rightarrow> string \<Rightarrow> int \<Rightarrow> real \<Rightarrow> real \<Rightarrow>
     string list option \<Rightarrow> ('m, 'c) engine \<Rightarrow> ('m, 'c) streamed option" where
  "generateStreaming L J cancel_req prompt maxTokens temperature topP stopStrings s =
     (case (g_model s, g_ctx s) of
        (Some vocab, Some c) \<Rightarrow>
          (let s1 = s\<lparr> g_is_generating := True, g_cancel_generation := False \<rparr>;
               stop_strs = collect_stop_strings stopStrings
           in if \<not> GetMethodID J then
                Some \<lparr> engine_after = s1\<lparr> g_is_generating := False \<rparr>,
                       exit_by = Callback_missing, tokens_sampled = [],
                       batches_evaluated = [], text_acc = [], delivered = [] \<rparr>
              else
                (let (n_tok, written) = llama_tokenize L vocab prompt (length prompt + 128)
                 in if n_tok < 0 then
                      Some \<lparr> engine_after = s1\<lparr> g_is_generating := False \<rparr>,
                             exit_by = Tokenize_failed, tokens_sampled = [],
                             batches_evaluated = [], text_acc = [], delivered = [] \<rparr>
                    else
                      (let tokens = prompt_tokens (length prompt + 128) written (nat n_tok);
                           c1 = llama_memory_clear L c
                       in case prompt_batch tokens of
                            None \<Rightarrow> None
                          | Some batch \<Rightarrow>
                              (let (rc, c2) = llama_decode L c1 batch
                               in if rc \<noteq> 0 then
                                    Some \<lparr> engine_after =
                                             s1\<lparr> g_ctx := Some c2, g_is_generating := False \<rparr>,
                                           exit_by = Prompt_eval_failed, tokens_sampled = [],
                                           batches_evaluated = [batch], text_acc = [],
                                           delivered = [] \<rparr>
                                  else
                                    (case streaming_loop L J cancel_req vocab stop_strs
                                            maxTokens 0
                                            \<lparr> ctx = c2, smpl = sampler_chain L topP temperature,
                                              accumulated = [], n_cur = n_tok,
                                              cancel = g_cancel_generation s1, sampled = [],
                                              evaluated = [batch], sink = [] \<rparr> of
                                       None \<Rightarrow> None
                                     | Some (st, e) \<Rightarrow>
                                         Some \<lparr> engine_after =
                                                  s1\<lparr> g_ctx := Some (ctx st),
                                                      g_cancel_generation := cancel st,
                                                      g_is_generating := False \<rparr>,
                                                exit_by = e, tokens_sampled = sampled st,
                                                batches_evaluated = evaluated st,
                                                text_acc = accumulated st,
                                                delivered = sink st \<rparr>)))))
      | _ \<Rightarrow>
          Some \<lparr> engine_after = s, exit_by = Model_absent, tokens_sampled = [],
                 batches_evaluated = [], text_acc = [], delivered = [] \<rparr>)"

subsection \<open>Notions for stating the properties\<close>

text \<open>The text that a sequence of tokens decodes to, piece by piece.\<close>

definition pieces :: "('m, 'c, 's) llama \<Rightarrow> 'm \<Rightarrow> llama_token list \<Rightarrow> string" where
  "pieces L vocab toks =
     concat (map (\<lambda>t. case token_piece L vocab t of None \<Rightarrow> [] | Some piece \<Rightarrow> piece) toks)"

text \<open>The batch that holds one token at one position, with its logits requested.\<close>

definition one_token :: "llama_token \<Rightarrow> llama_pos \<Rightarrow> llama_batch" where
  "one_token t p = \<lparr> n_tokens = 1, token = [t], pos = [p], n_seq_id = [1], seq_id = [[0]],
                     logits = [1] \<rparr>"

text \<open>
  What the library reads from a batch: for each of the first \<open>n_tokens\<close> slots the token,
  its position, its sequence ids and its logits flag.
\<close>

definition entries :: "llama_batch \<Rightarrow> (llama_token \<times> llama_pos \<times> int list \<times> int) list" where
  "entries b =
     map (\<lambda>j. (token b ! j, pos b ! j, take (nat (n_seq_id b ! j)) (seq_id b ! j), logits b ! j))
       [0..<nat (n_tokens b)]"

text \<open>A batch allocated for \<open>cap\<close> tokens with one sequence id each.\<close>

definition allocated :: "nat \<Rightarrow> llama_batch \<Rightarrow> bool" where
  "allocated cap b =
     (length (token b) = cap \<and> length (pos b) = cap \<and> length (n_seq_id b) = cap \<and>
      length (seq_id b) = cap \<and> length (logits b) = cap \<and>
      list_all (\<lambda>ids. length ids = 1) (seq_id b))"

text \<open>The batches of single tokens at consecutive positions from \<open>p\<close> on.\<close>

fun singles :: "llama_token list \<Rightarrow> llama_pos \<Rightarrow> llama_batch list" where
  "singles [] p = []"
| "singles (t # ts) p = one_token t p # singles ts (p + 1)"

text \<open>
  A delivered fragment \<open>d\<close> is clear of the stop strings in a text when it occurs there at
  a place where the text up to the end of the fragment passes the streaming stop check.
\<close>

definition clear_of :: "string list \<Rightarrow> string \<Rightarrow> string \<Rightarrow> bool" where
  "clear_of stop_strs full d =
     (d \<noteq> [] \<and> length d \<le> length full \<and>
      list_ex (\<lambda>k. occurs_at full d k \<and>
                    \<not> streaming_stop_check (take (k + length d) full) stop_strs)
        [0 ..< Suc (length full - length d)])"

text \<open>
  The operations that change the engine, and the engine after a sequence of them. The
  mutex lets one of \<open>loadModel\<close>, \<open>unloadModel\<close>, \<open>generate\<close> and \<open>generateStreaming\<close> run
  at a time; a \<open>cancelGeneration\<close> that comes during a generation call and after its last
  poll leaves what it leaves when it comes after the call. \<open>None\<close> is undefined behaviour.
\<close>

datatype operation =
    LoadModel "string option" int
  | UnloadModel
  | CancelGeneration
  | Generate "nat \<Rightarrow> bool" string int real real "string list option"
  | GenerateStreaming callback "nat \<Rightarrow> bool" string int real real "string list option"

fun perform ::
  "('m, 'c, 's) llama \<Rightarrow> operation \<Rightarrow> ('m, 'c) engine \<Rightarrow> ('m, 'c) engine option" where
  "perform L (LoadModel modelPath nThreads) s = Some (snd (loadModel L modelPath nThreads s))"
| "perform L UnloadModel s = Some (unloadModel s)"
| "perform L CancelGeneration s = Some (cancelGeneration s)"
| "perform L (Generate cancel_req prompt maxTokens temperature topP stopStrings) s =
     map_option engine_after
       (generate L cancel_req prompt maxTokens temperature topP stopStrings s)"
| "perform L (GenerateStreaming J cancel_req prompt maxTokens temperature topP stopStrings) s =
     map_option engine_after
       (generateStreaming L J cancel_req prompt maxTokens temperature topP stopStrings s)"

fun engine_after_all ::
  "('m, 'c, 's) llama \<Rightarrow> operation list \<Rightarrow> ('m, 'c) engine \<Rightarrow> ('m, 'c) engine option" where
  "engine_after_all L [] s = Some s"
| "engine_after_all L (x # xs) s =
     (case perform L x s of None \<Rightarrow> None | Some s' \<Rightarrow> engine_after_all L xs s')"

subsection \<open>A small library for concrete runs\<close>

text \<open>
  A library with a five-token vocabulary (0 ends the generation; 1, 2 and 3 decode to
  \<open>there\<close>, \<open>!\<close> and \<open>more\<close>, 4 to the single byte zero, as the byte tokens of a
  vocabulary do) whose sampler replays a script: the context counts the
  batches evaluated since the cache was cleared, and the sampler returns the script's
  entry for that count, then the end-of-generation token. The tokenizer gives one token per
  byte of the prompt. The loader reports progress one half, then one. Evaluations fail
  from the batch numbered \<open>fail_from\<close> on.
\<close>

definition script_piece :: "llama_token \<Rightarrow> string" where
  "script_piece t = (if t = 1 then ''there'' else if t = 2 then ''!''
                     else if t = 3 then ''more'' else if t = 4 then [CHR 0x00] else [])"

definition script_llama :: "llama_token list \<Rightarrow> nat \<Rightarrow> (unit, nat, llama_sampler list) llama" where
  "script_llama script fail_from =
     \<lparr> llama_model_load_from_file = (\<lambda>path. ([1 / 2, 1], if path = [] then None else Some ())),
       llama_init_from_model = (\<lambda>m n_ctx n_threads. if n_threads < 1 then None else Some 0),
       llama_tokenize = (\<lambda>m text cap. (int (length text), map (\<lambda>c. int (of_char c)) text)),
       llama_memory_clear = (\<lambda>c. 0),
       llama_decode = (\<lambda>c batch. if fail_from \<le> c then (1, c) else (0, Suc c)),
       llama_sampler_chain_init = [],
       llama_sampler_chain_add = (\<lambda>chain smp. chain @ [smp]),
       llama_sampler_sample =
         (\<lambda>chain c. (if 0 < c \<and> c - 1 < length script then script ! (c - 1) else 0, chain)),
       llama_vocab_is_eog = (\<lambda>m t. t = 0),
       llama_token_to_piece = (\<lambda>m t size. (int (length (script_piece t)), script_piece t)) \<rparr>"

text \<open>An engine with the model of \<open>script_llama\<close> loaded, and a sink that takes everything.\<close>

definition loaded :: "(unit, nat) engine" where
  "loaded = \<lparr> g_model = Some (), g_ctx = Some 0, g_is_generating = False,
              g_cancel_generation = False, g_load_progress = 1 \<rparr>"

definition accepting :: callback where
  "accepting = \<lparr> GetMethodID = True, NewStringUTF = (\<lambda>piece. True),
                 ExceptionCheck = (\<lambda>received. False) \<rparr>"

text \<open>Schedules of cancel requests: none at all, and one before the poll of iteration \<open>k\<close>.\<close>

definition never :: "nat \<Rightarrow> bool" where
  "never i = False"

definition cancel_before :: "nat \<Rightarrow> nat \<Rightarrow> bool" where
  "cancel_before k i = (i = k)"

text \<open>
  Concrete runs with \<open>script_llama\<close> on the prompt \<open>Hi\<close>: its prompt batch, the loop
  state after the prompt has been evaluated, and two outcomes.
\<close>

definition hi_batch :: llama_batch where
  "hi_batch = \<lparr> n_tokens = 2, token = [72, 105], pos = [0, 1], n_seq_id = [1, 1],
                 seq_id = [[0], [0]], logits = [0, 1] \<rparr>"



definition cancelled_run :: "(unit, nat) returned" where
  "cancelled_run =
     \<lparr> engine_after = loaded\<lparr> g_ctx := Some 2, g_cancel_generation := True \<rparr>,
       exit_by = Cancelled, tokens_sampled = [1],
       batches_evaluated = [hi_batch, one_token 1 2], text_acc = ''there'',
       text_out = ''there'' \<rparr>"

definition failed_run :: "(unit, nat) returned" where
  "failed_run =
     \<lparr> engine_after = loaded\<lparr> g_ctx := Some 2 \<rparr>,
       exit_by = Token_eval_failed, tokens_sampled = [1, 3],
       batches_evaluated = [hi_batch, one_token 1 2, one_token 3 3],
       text_acc = ''theremore'', text_out = ''theremore'' \<rparr>"

text \<open>
  More outcomes, an engine whose context still holds an earlier, cancelled generation, and
  the streaming loop after its first fragment.
\<close>

definition budget_run :: "(unit, nat) returned" where
  "budget_run =
     \<lparr> engine_after = loaded\<lparr> g_ctx := Some 3 \<rparr>,
       exit_by = Budget_exhausted, tokens_sampled = [1, 3],
       batches_evaluated = [hi_batch, one_token 1 2, one_token 3 3],
       text_acc = ''theremore'', text_out = ''theremore'' \<rparr>"

definition budget_stream :: "(unit, nat) streamed" where
  "budget_stream =
     \<lparr> engine_after = loaded\<lparr> g_ctx := Some 3 \<rparr>,
       exit_by = Budget_exhausted, tokens_sampled = [1, 3],
       batches_evaluated = [hi_batch, one_token 1 2, one_token 3 3],
       text_acc = ''theremore'', delivered = [''there'', ''more''] \<rparr>"

definition used :: "(unit, nat) engine" where
  "used = loaded\<lparr> g_ctx := Some 7, g_cancel_generation := True \<rparr>"

text \<open>
  For comparing two calls: a library whose sampler replays the script only when its chain
  holds the distribution sampler seeded with 42, and ends the generation at once otherwise;
  a second run of a library that builds every distribution sampler with a seed other than
  42 differently (a library that draws entropy of its own for some seed differs between two
  runs in this way); a sink that raises an exception on every fragment; and the outcomes of
  calls on the engine \<open>used\<close>.
\<close>

definition seeded_llama :: "llama_token list \<Rightarrow> nat \<Rightarrow> (unit, nat, llama_sampler list) llama" where
  "seeded_llama script fail_from =
     (script_llama script fail_from)
       \<lparr> llama_sampler_sample :=
           (\<lambda>chain c. if llama_sampler_init_dist 42 \<in> set chain
                       then llama_sampler_sample (script_llama script fail_from) chain c
                       else (0, chain)) \<rparr>"

definition other_seeds :: "llama_sampler list \<Rightarrow> llama_sampler \<Rightarrow> llama_sampler list" where
  "other_seeds chain smp =
     (case smp of
        llama_sampler_init_dist seed \<Rightarrow> if seed = 42 then chain @ [smp] else []
      | _ \<Rightarrow> chain @ [smp])"

definition refusing :: callback where
  "refusing = \<lparr> GetMethodID = True, NewStringUTF = (\<lambda>piece. True),
                ExceptionCheck = (\<lambda>received. True) \<rparr>"

definition full_run :: "(unit, nat) returned" where
  "full_run =
     \<lparr> engine_after = used\<lparr> g_ctx := Some 4, g_cancel_generation := False \<rparr>,
       exit_by = End_of_generation, tokens_sampled = [1, 3, 1, 0],
       batches_evaluated = [hi_batch, one_token 1 2, one_token 3 3, one_token 1 4],
       text_acc = ''theremorethere'', text_out = ''theremorethere'' \<rparr>"

definition used_budget_run :: "(unit, nat) returned" where
  "used_budget_run = budget_run\<lparr> engine_after := used\<lparr> g_ctx := Some 3, g_cancel_generation := False \<rparr> \<rparr>"

definition refused_stream :: "(unit, nat) streamed" where
  "refused_stream =
     \<lparr> engine_after = used\<lparr> g_ctx := Some 1, g_cancel_generation := False \<rparr>,
       exit_by = Sink_failed, tokens_sampled = [1],
       batches_evaluated = [hi_batch], text_acc = ''there'', delivered = [''there''] \<rparr>"

definition after_there :: "(nat, llama_sampler list) stream_state" where
  "after_there = \<lparr> ctx = 2, smpl = [], accumulated = ''there'', n_cur = 3, cancel = False,
                    sampled = [1], evaluated = [hi_batch, one_token 1 2], sink = [''there''] \<rparr>"

definition stopped_stream :: "(unit, nat) streamed" where
  "stopped_stream =
     \<lparr> engine_after = loaded\<lparr> g_ctx := Some 2 \<rparr>,
       exit_by = Stop_string, tokens_sampled = [1, 2],
       batches_evaluated = [hi_batch, one_token 1 2],
       text_acc = ''there!'', delivered = [''there''] \<rparr>"

section \<open>Batches\<close>

lemma allocated_init: "allocated n (llama_batch_init n 1)"
  by (simp add: allocated_def llama_batch_init_def list_all_iff)

lemma singleton_update: "length xs = 1 \<Longrightarrow> xs[0 := v] = [v]"
  by (cases xs) auto

lemma batch_add_token_room:
  assumes "allocated cap b" and "n_tokens b = int k" and "k < cap"
  shows "batch_add_token b t p lg =
           Some (b\<lparr> token := (token b)[k := t], pos := (pos b)[k := p],
                    n_seq_id := (n_seq_id b)[k := 1], seq_id := (seq_id b)[k := [0]],
                    logits := (logits b)[k := if lg then 1 else 0], n_tokens := int k + 1 \<rparr>)"
proof -
  from assms have "length (seq_id b ! k) = 1"
    by (simp add: allocated_def list_all_length)
  then have "(seq_id b ! k)[0 := 0] = [0]" and "seq_id b ! k \<noteq> []"
    by (auto intro: singleton_update)
  with assms show ?thesis
    by (simp add: batch_add_token_def store_def allocated_def)
qed

lemma add_prompt_tokens_room:
  assumes "allocated cap b" and "n_tokens b = int k" and "k + length ts \<le> cap"
  shows "\<exists>b'. add_prompt_tokens b ts (int k) = Some b' \<and> allocated cap b' \<and>
           n_tokens b' = int (k + length ts) \<and>
           (\<forall>j < cap. 
              token b' ! j = (if k \<le> j \<and> j < k + length ts then ts ! (j - k) else token b ! j) \<and>
              pos b' ! j = (if k \<le> j \<and> j < k + length ts then int j else pos b ! j) \<and>
              n_seq_id b' ! j = (if k \<le> j \<and> j < k + length ts then 1 else n_seq_id b ! j) \<and>
              seq_id b' ! j = (if k \<le> j \<and> j < k + length ts then [0] else seq_id b ! j) \<and>
              logits b' ! j = (if k \<le> j \<and> j < k + length ts then 0 else logits b ! j))"
  using assms
proof (induction ts arbitrary: b k)
  case Nil
  then show ?case by auto
next
  case (Cons t ts)
  let ?b1 = "b\<lparr> token := (token b)[k := t], pos := (pos b)[k := int k],
                n_seq_id := (n_seq_id b)[k := 1], seq_id := (seq_id b)[k := [0]],
                logits := (logits b)[k := 0], n_tokens := int k + 1 \<rparr>"
  from Cons.prems have add: "batch_add_token b t (int k) False = Some ?b1"
    by (simp add: batch_add_token_room)
  from Cons.prems have alloc: "allocated cap ?b1"
    by (auto simp: allocated_def list_all_length nth_list_update)
  have nt: "n_tokens ?b1 = int (Suc k)" by simp
  from Cons.prems have le: "Suc k + length ts \<le> cap" by simp
  from Cons.IH [OF alloc nt le] obtain b' where b':
    "add_prompt_tokens ?b1 ts (int (Suc k)) = Some b'" "allocated cap b'"
    "n_tokens b' = int (Suc k + length ts)"
    "\<forall>j < cap.
       token b' ! j = (if Suc k \<le> j \<and> j < Suc k + length ts then ts ! (j - Suc k) else token ?b1 ! j) \<and>
       pos b' ! j = (if Suc k \<le> j \<and> j < Suc k + length ts then int j else pos ?b1 ! j) \<and>
       n_seq_id b' ! j = (if Suc k \<le> j \<and> j < Suc k + length ts then 1 else n_seq_id ?b1 ! j) \<and>
       seq_id b' ! j = (if Suc k \<le> j \<and> j < Suc k + length ts then [0] else seq_id ?b1 ! j) \<and>
       logits b' ! j = (if Suc k \<le> j \<and> j < Suc k + length ts then 0 else logits ?b1 ! j)"
    by blast
  have step: "add_prompt_tokens b (t # ts) (int k) = Some b'"
    using add b'(1) by (simp add: add.commute)
  have "\<forall>j < cap.
       token b' ! j = (if k \<le> j \<and> j < k + length (t # ts) then (t # ts) ! (j - k) else token b ! j) \<and>
       pos b' ! j = (if k \<le> j \<and> j < k + length (t # ts) then int j else pos b ! j) \<and>
       n_seq_id b' ! j = (if k \<le> j \<and> j < k + length (t # ts) then 1 else n_seq_id b ! j) \<and>
       seq_id b' ! j = (if k \<le> j \<and> j < k + length (t # ts) then [0] else seq_id b ! j) \<and>
       logits b' ! j = (if k \<le> j \<and> j < k + length (t # ts) then 0 else logits b ! j)"
  proof (intro allI impI)
    fix j assume j: "j < cap"
    with Cons.prems(1) have lens: "j < length (token b)" "j < length (pos b)"
      "j < length (n_seq_id b)" "j < length (seq_id b)" "j < length (logits b)"
      by (simp_all add: allocated_def)
    consider "j < k" | "j = k" | "k < j"
      by linarith
    then show "token b' ! j = (if k \<le> j \<and> j < k + length (t # ts) then (t # ts) ! (j - k) else token b ! j) \<and>
       pos b' ! j = (if k \<le> j \<and> j < k + length (t # ts) then int j else pos b ! j) \<and>
       n_seq_id b' ! j = (if k \<le> j \<and> j < k + length (t # ts) then 1 else n_seq_id b ! j) \<and>
       seq_id b' ! j = (if k \<le> j \<and> j < k + length (t # ts) then [0] else seq_id b ! j) \<and>
       logits b' ! j = (if k \<le> j \<and> j < k + length (t # ts) then 0 else logits b ! j)"
    proof cases
      case 1
      with b'(4) j lens show ?thesis by simp
    next
      case 2
      with b'(4) j lens show ?thesis by simp
    next
      case 3
      then obtain d where d: "j - k = Suc d" "j - Suc k = d"
        by (metis Suc_diff_Suc diff_Suc_eq_diff_pred Suc_pred zero_less_diff diff_Suc_1)
      with 3 b'(4) j lens show ?thesis by auto
    qed
  qed
  with step b'(2,3) show ?case by auto
qed


lemma prompt_batch_entries:
  assumes "tokens \<noteq> []"
  shows "\<exists>b. prompt_batch tokens = Some b \<and> n_tokens b = int (length tokens) \<and>
           entries b =
             map (\<lambda>j. (tokens ! j, int j, [0], if Suc j = length tokens then 1 else 0))
               [0..<length tokens]"
proof -
  let ?N = "length tokens"
  from assms have pos: "0 < ?N" by simp
  from add_prompt_tokens_room [OF allocated_init, of ?N 0 tokens]
  obtain b' where b': "add_prompt_tokens (llama_batch_init ?N 1) tokens 0 = Some b'"
    "allocated ?N b'" "n_tokens b' = int ?N"
    "\<forall>j < ?N. token b' ! j = tokens ! j \<and> pos b' ! j = int j \<and> n_seq_id b' ! j = 1 \<and>
                seq_id b' ! j = [0] \<and> logits b' ! j = 0"
    by (auto simp: llama_batch_init_def)
  from b'(2) have len: "length (logits b') = ?N" by (simp add: allocated_def)
  with pos b'(3) have st: "store (logits b') (n_tokens b' - 1) 1 = Some ((logits b')[?N - 1 := 1])"
    by (simp add: store_def nat_diff_distrib')
  let ?b = "b'\<lparr> logits := (logits b')[?N - 1 := 1] \<rparr>"
  from b'(1) st have "prompt_batch tokens = Some ?b"
    by (simp add: prompt_batch_def)
  moreover have "n_tokens ?b = int ?N" using b'(3) by simp
  moreover have "entries ?b =
      map (\<lambda>j. (tokens ! j, int j, [0], if Suc j = ?N then 1 else 0)) [0..<?N]"
    unfolding entries_def using b'(3,4) len pos
    by (auto simp: nth_list_update)
  ultimately show ?thesis by blast
qed

lemma prompt_batch_empty: "prompt_batch [] = None"
  by (simp add: prompt_batch_def llama_batch_init_def store_def)

lemma entries_one_token: "entries (one_token t p) = [(t, p, [0], 1)]"
  by (simp add: entries_def one_token_def)

section \<open>Loop steps\<close>



lemma single_batch_eq: "single_batch t p = Some (one_token t p)"
  by (simp add: single_batch_def batch_add_token_def llama_batch_init_def store_def one_token_def)

lemma evaluate_token_eq:
  "evaluate_token L t st =
     (if fst (llama_decode L (ctx st) (one_token t (n_cur st))) \<noteq> 0
      then Break Token_eval_failed
             (st\<lparr> ctx := snd (llama_decode L (ctx st) (one_token t (n_cur st))),
                  evaluated := evaluated st @ [one_token t (n_cur st)] \<rparr>)
      else Continue
             (st\<lparr> ctx := snd (llama_decode L (ctx st) (one_token t (n_cur st))),
                  evaluated := evaluated st @ [one_token t (n_cur st)],
                  n_cur := n_cur st + 1 \<rparr>))"
  by (simp add: evaluate_token_def single_batch_eq Let_def split: prod.splits)

lemma token_piece_nonempty: "token_piece L vocab t = Some piece \<Longrightarrow> piece \<noteq> []"
  by (auto simp: token_piece_def Let_def split: prod.splits if_splits)

lemma stop_check_False: "stop_check r ss = (r', False) \<Longrightarrow> r' = r"
  by (induction ss) (auto split: if_splits option.splits)

lemma pieces_single:
  "pieces L v [t] = (case token_piece L v t of None \<Rightarrow> [] | Some piece \<Rightarrow> piece)"
  by (simp add: pieces_def)

lemma pieces_append: "pieces L v (xs @ ys) = pieces L v xs @ pieces L v ys"
  by (simp add: pieces_def)

lemma generate_step_elim [case_names Cancel Eog Stop Eval]:
  obtains
    (Cancel) "cancel st \<or> cr (nat i)"
      "generate_step L cr v ss i st = Break Cancelled (st\<lparr> cancel := True \<rparr>)"
  | (Eog) t s' where "\<not> cancel st" "\<not> cr (nat i)"
      "llama_sampler_sample L (smpl st) (ctx st) = (t, s')" "llama_vocab_is_eog L v t"
      "generate_step L cr v ss i st =
         Break End_of_generation (st\<lparr> smpl := s', sampled := sampled st @ [t] \<rparr>)"
  | (Stop) t s' piece r' where "\<not> cancel st" "\<not> cr (nat i)"
      "llama_sampler_sample L (smpl st) (ctx st) = (t, s')" "\<not> llama_vocab_is_eog L v t"
      "token_piece L v t = Some piece" "stop_check (accumulated st @ piece) ss = (r', True)"
      "generate_step L cr v ss i st =
         Break Stop_string (st\<lparr> smpl := s', sampled := sampled st @ [t], accumulated := r' \<rparr>)"
  | (Eval) t s' where "\<not> cancel st" "\<not> cr (nat i)"
      "llama_sampler_sample L (smpl st) (ctx st) = (t, s')" "\<not> llama_vocab_is_eog L v t"
      "generate_step L cr v ss i st =
         evaluate_token L t
           (st\<lparr> smpl := s', sampled := sampled st @ [t],
                accumulated := accumulated st @ pieces L v [t] \<rparr>)"
proof (cases "cancel st \<or> cr (nat i)")
  case True
  then have "generate_step L cr v ss i st = Break Cancelled (st\<lparr> cancel := True \<rparr>)"
    by (simp add: generate_step_def poll_cancel_def)
  with True show ?thesis by (rule Cancel)
next
  case nc: False
  obtain t s' where smp: "llama_sampler_sample L (smpl st) (ctx st) = (t, s')"
    by (cases "llama_sampler_sample L (smpl st) (ctx st)")
  from nc have st0: "poll_cancel cr i st = st"
    by (simp add: poll_cancel_def)
  show ?thesis
  proof (cases "llama_vocab_is_eog L v t")
    case True
    with nc smp st0 show ?thesis
      by (intro Eog [of t s']) (simp_all add: generate_step_def sample_token_def)
  next
    case ne: False
    show ?thesis
    proof (cases "token_piece L v t")
      case None
      with nc smp st0 ne show ?thesis
        by (intro Eval [of t s']) (simp_all add: generate_step_def sample_token_def pieces_single)
    next
      case (Some piece)
      obtain r' b where sc: "stop_check (accumulated st @ piece) ss = (r', b)"
        by (cases "stop_check (accumulated st @ piece) ss")
      show ?thesis
      proof (cases b)
        case True
        with nc smp st0 ne Some sc show ?thesis
          by (intro Stop [of t s' piece r']) (simp_all add: generate_step_def sample_token_def)
      next
        case False
        with sc have "r' = accumulated st @ piece" by (auto dest: stop_check_False)
        with False nc smp st0 ne Some sc show ?thesis
          by (intro Eval [of t s'])
             (simp_all add: generate_step_def sample_token_def pieces_single)
      qed
    qed
  qed
qed

lemma generate_loop_rule:
  assumes run: "generate_loop L cr v ss maxTokens i st = Some (st', e)"
    and budget: "\<And>i st. \<not> i < maxTokens \<Longrightarrow> R i st st Budget_exhausted"
    and brk: "\<And>i st st2 e. i < maxTokens \<Longrightarrow> generate_step L cr v ss i st = Break e st2 \<Longrightarrow> R i st st2 e"
    and cont: "\<And>i st st2 st3 e. i < maxTokens \<Longrightarrow>
                 generate_step L cr v ss i st = Continue st2 \<Longrightarrow> R (i + 1) st2 st3 e \<Longrightarrow> R i st st3 e"
  shows "R i st st' e"
  using run
proof (induction "nat (maxTokens - i)" arbitrary: i st)
  case 0
  then show ?case using budget by (simp add: generate_loop.simps)
next
  case (Suc n)
  then have lt: "i < maxTokens" by linarith
  show ?case
  proof (cases "generate_step L cr v ss i st")
    case (Break e2 st2)
    with lt Suc.prems have "st' = st2" "e = e2" by (simp_all add: generate_loop.simps)
    with Break brk lt show ?thesis by simp
  next
    case (Continue st2)
    with lt Suc.prems have "generate_loop L cr v ss maxTokens (i + 1) st2 = Some (st', e)"
      by (simp add: generate_loop.simps)
    moreover from Suc(2) have "n = nat (maxTokens - (i + 1))" by linarith
    ultimately have "R (i + 1) st2 st' e" by (rule Suc(1) [rotated])
    with Continue cont lt show ?thesis by blast
  next
    case Undefined
    with lt Suc.prems show ?thesis by (simp add: generate_loop.simps)
  qed
qed

lemma singles_length: "length (singles ts p) = length ts"
  by (induction ts arbitrary: p) simp_all

lemma singles_nth: "k < length ts \<Longrightarrow> singles ts p ! k = one_token (ts ! k) (p + int k)"
proof (induction ts arbitrary: p k)
  case Nil
  then show ?case by simp
next
  case (Cons t ts)
  then show ?case by (cases k) (simp_all add: algebra_simps)
qed

lemma generate_loop_history_if:
  assumes "generate_loop L cr v ss maxTokens i st = Some (st', e)"
  shows "\<exists>toks. sampled st' = sampled st @ toks \<and>
           (if e \<in> {End_of_generation, Stop_string}
            then toks \<noteq> [] \<and> evaluated st' = evaluated st @ singles (butlast toks) (n_cur st)
            else e \<in> {Cancelled, Budget_exhausted, Token_eval_failed} \<and>
                 evaluated st' = evaluated st @ singles toks (n_cur st) \<and>
                 accumulated st' = accumulated st @ pieces L v toks)"
proof -
  let ?R = "\<lambda>(i::int) st st' e. \<exists>toks. sampled st' = sampled st @ toks \<and>
           (if e \<in> {End_of_generation, Stop_string}
            then toks \<noteq> [] \<and> evaluated st' = evaluated st @ singles (butlast toks) (n_cur st)
            else e \<in> {Cancelled, Budget_exhausted, Token_eval_failed} \<and>
                 evaluated st' = evaluated st @ singles toks (n_cur st) \<and>
                 accumulated st' = accumulated st @ pieces L v toks)"
  have "?R i st st' e"
  proof (rule generate_loop_rule [where R = ?R, OF assms], goal_cases)
    case (1 i st)
    show ?case by (intro exI [of _ "[]"]) (simp add: pieces_def)
  next
    case step: (2 i st st2 e)
    show ?case
    proof (cases rule: generate_step_elim [of st cr i L v ss])
      case Cancel
      with step show ?thesis by (intro exI [of _ "[]"]) (auto simp: pieces_def)
    next
      case (Eog t s')
      with step show ?thesis by (intro exI [of _ "[t]"]) auto
    next
      case (Stop t s' piece r')
      with step show ?thesis by (intro exI [of _ "[t]"]) auto
    next
      case (Eval t s')
      with step show ?thesis
        by (intro exI [of _ "[t]"]) (auto simp: evaluate_token_eq split: if_splits)
    qed
  next
    case step: (3 i st st2 st3 e)
    from step(3) obtain toks where toks: "sampled st3 = sampled st2 @ toks"
      "if e \<in> {End_of_generation, Stop_string}
            then toks \<noteq> [] \<and> evaluated st3 = evaluated st2 @ singles (butlast toks) (n_cur st2)
            else e \<in> {Cancelled, Budget_exhausted, Token_eval_failed} \<and>
                 evaluated st3 = evaluated st2 @ singles toks (n_cur st2) \<and>
                 accumulated st3 = accumulated st2 @ pieces L v toks"
      by blast
    show ?case
    proof (cases rule: generate_step_elim [of st cr i L v ss])
      case (Eval t s')
      with step(2) have st2: "sampled st2 = sampled st @ [t]"
        "accumulated st2 = accumulated st @ pieces L v [t]"
        "evaluated st2 = evaluated st @ [one_token t (n_cur st)]"
        "n_cur st2 = n_cur st + 1"
        by (auto simp: evaluate_token_eq split: if_splits)
      with toks show ?thesis
        by (intro exI [of _ "t # toks"]) (auto simp: pieces_def split: if_splits)
    qed (use step(2) in auto)
  qed
  then show ?thesis .
qed

lemma generate_loop_history:
  assumes "generate_loop L cr v ss maxTokens i st = Some (st', e)"
  obtains toks where "sampled st' = sampled st @ toks"
    and "e \<in> {End_of_generation, Stop_string} \<Longrightarrow>
           toks \<noteq> [] \<and> evaluated st' = evaluated st @ singles (butlast toks) (n_cur st)"
    and "e \<notin> {End_of_generation, Stop_string} \<Longrightarrow>
           e \<in> {Cancelled, Budget_exhausted, Token_eval_failed} \<and>
           evaluated st' = evaluated st @ singles toks (n_cur st) \<and>
           accumulated st' = accumulated st @ pieces L v toks"
proof -
  from generate_loop_history_if [OF assms] obtain toks where
    "sampled st' = sampled st @ toks"
    "if e \<in> {End_of_generation, Stop_string}
     then toks \<noteq> [] \<and> evaluated st' = evaluated st @ singles (butlast toks) (n_cur st)
     else e \<in> {Cancelled, Budget_exhausted, Token_eval_failed} \<and>
          evaluated st' = evaluated st @ singles toks (n_cur st) \<and>
          accumulated st' = accumulated st @ pieces L v toks"
    by blast
  then show ?thesis
    by (intro that [of toks]) (simp_all split: if_splits)
qed


section \<open>The two generation calls, case by case\<close>

lemma generate_cases [consumes 1, case_names Absent Tokenize Prompt Loop]:
  assumes "generate L cr prompt maxTokens temperature topP stopStrings s = Some out"
  obtains
    (Absent) "\<not> isModelLoaded s"
      "out = \<lparr> engine_after = s, exit_by = Model_absent, tokens_sampled = [],
               batches_evaluated = [], text_acc = [], text_out = [] \<rparr>"
  | (Tokenize) vocab c n written where "g_model s = Some vocab" "g_ctx s = Some c"
      "llama_tokenize L vocab prompt (length prompt + 128) = (n, written)" "n < 0"
      "out = \<lparr> engine_after = s\<lparr> g_is_generating := False, g_cancel_generation := False \<rparr>,
               exit_by = Tokenize_failed, tokens_sampled = [],
               batches_evaluated = [], text_acc = [], text_out = [] \<rparr>"
  | (Prompt) vocab c n written batch rc c2 where "g_model s = Some vocab" "g_ctx s = Some c"
      "llama_tokenize L vocab prompt (length prompt + 128) = (n, written)" "0 \<le> n"
      "prompt_batch (prompt_tokens (length prompt + 128) written (nat n)) = Some batch"
      "llama_decode L (llama_memory_clear L c) batch = (rc, c2)" "rc \<noteq> 0"
      "out = \<lparr> engine_after = s\<lparr> g_ctx := Some c2, g_is_generating := False,
                                   g_cancel_generation := False \<rparr>,
               exit_by = Prompt_eval_failed, tokens_sampled = [],
               batches_evaluated = [batch], text_acc = [], text_out = [] \<rparr>"
  | (Loop) vocab c n written batch c2 st e where "g_model s = Some vocab" "g_ctx s = Some c"
      "llama_tokenize L vocab prompt (length prompt + 128) = (n, written)" "0 \<le> n"
      "prompt_batch (prompt_tokens (length prompt + 128) written (nat n)) = Some batch"
      "llama_decode L (llama_memory_clear L c) batch = (0, c2)"
      "generate_loop L cr vocab (collect_stop_strings stopStrings) maxTokens 0
         \<lparr> ctx = c2, smpl = sampler_chain L topP temperature, accumulated = [], n_cur = n,
           cancel = False, sampled = [], evaluated = [batch] \<rparr> = Some (st, e)"
      "out = \<lparr> engine_after = s\<lparr> g_ctx := Some (ctx st), g_is_generating := False,
                                   g_cancel_generation := cancel st \<rparr>,
               exit_by = e, tokens_sampled = sampled st,
               batches_evaluated = evaluated st, text_acc = accumulated st,
               text_out = c_str (accumulated st) \<rparr>"
proof (cases "isModelLoaded s")
  case False
  with assms have "out = \<lparr> engine_after = s, exit_by = Model_absent, tokens_sampled = [],
               batches_evaluated = [], text_acc = [], text_out = [] \<rparr>"
    by (auto simp: generate_def isModelLoaded_def split: option.splits)
  with False show ?thesis by (rule Absent)
next
  case True
  then obtain vocab c where mc: "g_model s = Some vocab" "g_ctx s = Some c"
    by (auto simp: isModelLoaded_def)
  obtain n written where tk: "llama_tokenize L vocab prompt (length prompt + 128) = (n, written)"
    by (cases "llama_tokenize L vocab prompt (length prompt + 128)")
  show ?thesis
  proof (cases "n < 0")
    case True
    with assms mc tk show ?thesis
      by (intro Tokenize [of vocab c n written]) (auto simp: generate_def)
  next
    case False
    then have n0: "0 \<le> n" by simp
    from assms mc tk False obtain batch where
      pb: "prompt_batch (prompt_tokens (length prompt + 128) written (nat n)) = Some batch"
      by (auto simp: generate_def Let_def split: option.splits)
    obtain rc c2 where dc: "llama_decode L (llama_memory_clear L c) batch = (rc, c2)"
      by (cases "llama_decode L (llama_memory_clear L c) batch")
    show ?thesis
    proof (cases "rc = 0")
      case False
      with assms mc tk n0 pb dc show ?thesis
        by (intro Prompt [of vocab c n written batch rc c2]) (auto simp: generate_def Let_def)
    next
      case True
      with assms mc tk n0 pb dc obtain st e where
        lp: "generate_loop L cr vocab (collect_stop_strings stopStrings) maxTokens 0
         \<lparr> ctx = c2, smpl = sampler_chain L topP temperature, accumulated = [], n_cur = n,
           cancel = False, sampled = [], evaluated = [batch] \<rparr> = Some (st, e)"
        by (auto simp: generate_def Let_def split: option.splits)
      with assms mc tk n0 pb dc True show ?thesis
        by (intro Loop [of vocab c n written batch c2 st e]) (auto simp: generate_def Let_def)
    qed
  qed
qed

lemma streaming_step_elim [case_names Cancel Eog NoPiece Match Dropped Thrown Delivered]:
  obtains
    (Cancel) "cancel st \<or> cr (nat i)"
      "streaming_step L J cr v ss i st = Break Cancelled (st\<lparr> cancel := True \<rparr>)"
  | (Eog) t s' where "\<not> cancel st" "\<not> cr (nat i)"
      "llama_sampler_sample L (smpl st) (ctx st) = (t, s')" "llama_vocab_is_eog L v t"
      "streaming_step L J cr v ss i st =
         Break End_of_generation (st\<lparr> smpl := s', sampled := sampled st @ [t] \<rparr>)"
  | (NoPiece) t s' where "\<not> cancel st" "\<not> cr (nat i)"
      "llama_sampler_sample L (smpl st) (ctx st) = (t, s')" "\<not> llama_vocab_is_eog L v t"
      "token_piece L v t = None"
      "streaming_step L J cr v ss i st =
         evaluate_token L t (st\<lparr> smpl := s', sampled := sampled st @ [t] \<rparr>)"
  | (Match) t s' decoded where "\<not> cancel st" "\<not> cr (nat i)"
      "llama_sampler_sample L (smpl st) (ctx st) = (t, s')" "\<not> llama_vocab_is_eog L v t"
      "token_piece L v t = Some decoded"
      "streaming_stop_check (accumulated st @ decoded) ss"
      "streaming_step L J cr v ss i st =
         Break Stop_string
           (st\<lparr> smpl := s', sampled := sampled st @ [t],
                accumulated := accumulated st @ decoded \<rparr>)"
  | (Dropped) t s' decoded where "\<not> cancel st" "\<not> cr (nat i)"
      "llama_sampler_sample L (smpl st) (ctx st) = (t, s')" "\<not> llama_vocab_is_eog L v t"
      "token_piece L v t = Some decoded"
      "\<not> streaming_stop_check (accumulated st @ decoded) ss"
      "\<not> NewStringUTF J (c_str decoded)"
      "streaming_step L J cr v ss i st =
         evaluate_token L t
           (st\<lparr> smpl := s', sampled := sampled st @ [t],
                accumulated := accumulated st @ decoded \<rparr>)"
  | (Thrown) t s' decoded where "\<not> cancel st" "\<not> cr (nat i)"
      "llama_sampler_sample L (smpl st) (ctx st) = (t, s')" "\<not> llama_vocab_is_eog L v t"
      "token_piece L v t = Some decoded"
      "\<not> streaming_stop_check (accumulated st @ decoded) ss"
      "NewStringUTF J (c_str decoded)" "ExceptionCheck J (sink st @ [c_str decoded])"
      "streaming_step L J cr v ss i st =
         Break Sink_failed
           (st\<lparr> smpl := s', sampled := sampled st @ [t],
                accumulated := accumulated st @ decoded,
                sink := sink st @ [c_str decoded] \<rparr>)"
  | (Delivered) t s' decoded where "\<not> cancel st" "\<not> cr (nat i)"
      "llama_sampler_sample L (smpl st) (ctx st) = (t, s')" "\<not> llama_vocab_is_eog L v t"
      "token_piece L v t = Some decoded"
      "\<not> streaming_stop_check (accumulated st @ decoded) ss"
      "NewStringUTF J (c_str decoded)" "\<not> ExceptionCheck J (sink st @ [c_str decoded])"
      "streaming_step L J cr v ss i st =
         evaluate_token L t
           (st\<lparr> smpl := s', sampled := sampled st @ [t],
                accumulated := accumulated st @ decoded,
                sink := sink st @ [c_str decoded] \<rparr>)"
proof (cases "cancel st \<or> cr (nat i)")
  case True
  then have "streaming_step L J cr v ss i st = Break Cancelled (st\<lparr> cancel := True \<rparr>)"
    by (simp add: streaming_step_def poll_cancel_def)
  with True show ?thesis by (rule Cancel)
next
  case nc: False
  obtain t s' where smp: "llama_sampler_sample L (smpl st) (ctx st) = (t, s')"
    by (cases "llama_sampler_sample L (smpl st) (ctx st)")
  from nc have st0: "poll_cancel cr i st = st"
    by (simp add: poll_cancel_def)
  show ?thesis
  proof (cases "llama_vocab_is_eog L v t")
    case True
    with nc smp st0 show ?thesis
      by (intro Eog [of t s']) (simp_all add: streaming_step_def sample_token_def)
  next
    case ne: False
    show ?thesis
    proof (cases "token_piece L v t")
      case None
      with nc smp st0 ne show ?thesis
        by (intro NoPiece [of t s']) (simp_all add: streaming_step_def sample_token_def)
    next
      case (Some decoded)
      then have nonempty: "decoded \<noteq> []" by (rule token_piece_nonempty)
      show ?thesis
      proof (cases "streaming_stop_check (accumulated st @ decoded) ss")
        case True
        with nc smp st0 ne Some show ?thesis
          by (intro Match [of t s' decoded]) (simp_all add: streaming_step_def sample_token_def)
      next
        case nm: False
        show ?thesis
        proof (cases "NewStringUTF J (c_str decoded)")
          case False
          with nm nc smp st0 ne Some show ?thesis
            by (intro Dropped [of t s' decoded])
               (simp_all add: streaming_step_def sample_token_def)
        next
          case ok: True
          show ?thesis
          proof (cases "ExceptionCheck J (sink st @ [c_str decoded])")
            case True
            with ok nm nc smp st0 ne Some nonempty show ?thesis
              by (intro Thrown [of t s' decoded])
                 (simp_all add: streaming_step_def sample_token_def)
          next
            case False
            with ok nm nc smp st0 ne Some nonempty show ?thesis
              by (intro Delivered [of t s' decoded])
                 (simp_all add: streaming_step_def sample_token_def)
          qed
        qed
      qed
    qed
  qed
qed

lemma streaming_loop_rule:
  assumes run: "streaming_loop L J cr v ss maxTokens i st = Some (st', e)"
    and budget: "\<And>i st. \<not> i < maxTokens \<Longrightarrow> R i st st Budget_exhausted"
    and brk: "\<And>i st st2 e. i < maxTokens \<Longrightarrow>
                streaming_step L J cr v ss i st = Break e st2 \<Longrightarrow> R i st st2 e"
    and cont: "\<And>i st st2 st3 e. i < maxTokens \<Longrightarrow>
                 streaming_step L J cr v ss i st = Continue st2 \<Longrightarrow> R (i + 1) st2 st3 e \<Longrightarrow>
                 R i st st3 e"
  shows "R i st st' e"
  using run
proof (induction "nat (maxTokens - i)" arbitrary: i st)
  case 0
  then show ?case using budget by (simp add: streaming_loop.simps)
next
  case (Suc n)
  then have lt: "i < maxTokens" by linarith
  show ?case
  proof (cases "streaming_step L J cr v ss i st")
    case (Break e2 st2)
    with lt Suc.prems have "st' = st2" "e = e2" by (simp_all add: streaming_loop.simps)
    with Break brk lt show ?thesis by simp
  next
    case (Continue st2)
    with lt Suc.prems have "streaming_loop L J cr v ss maxTokens (i + 1) st2 = Some (st', e)"
      by (simp add: streaming_loop.simps)
    moreover from Suc(2) have "n = nat (maxTokens - (i + 1))" by linarith
    ultimately have "R (i + 1) st2 st' e" by (rule Suc(1) [rotated])
    with Continue cont lt show ?thesis by blast
  next
    case Undefined
    with lt Suc.prems show ?thesis by (simp add: streaming_loop.simps)
  qed
qed

lemma generateStreaming_cases [consumes 1, case_names Absent Callback Tokenize Prompt Loop]:
  assumes "generateStreaming L J cr prompt maxTokens temperature topP stopStrings s = Some out"
  obtains
    (Absent) "\<not> isModelLoaded s"
      "out = \<lparr> engine_after = s, exit_by = Model_absent, tokens_sampled = [],
               batches_evaluated = [], text_acc = [], delivered = [] \<rparr>"
  | (Callback) "isModelLoaded s" "\<not> GetMethodID J"
      "out = \<lparr> engine_after = s\<lparr> g_is_generating := False, g_cancel_generation := False \<rparr>,
               exit_by = Callback_missing, tokens_sampled = [],
               batches_evaluated = [], text_acc = [], delivered = [] \<rparr>"
  | (Tokenize) vocab c n written where "g_model s = Some vocab" "g_ctx s = Some c"
      "GetMethodID J"
      "llama_tokenize L vocab prompt (length prompt + 128) = (n, written)" "n < 0"
      "out = \<lparr> engine_after = s\<lparr> g_is_generating := False, g_cancel_generation := False \<rparr>,
               exit_by = Tokenize_failed, tokens_sampled = [],
               batches_evaluated = [], text_acc = [], delivered = [] \<rparr>"
  | (Prompt) vocab c n written batch rc c2 where "g_model s = Some vocab" "g_ctx s = Some c"
      "GetMethodID J"
      "llama_tokenize L vocab prompt (length prompt + 128) = (n, written)" "0 \<le> n"
      "prompt_batch (prompt_tokens (length prompt + 128) written (nat n)) = Some batch"
      "llama_decode L (llama_memory_clear L c) batch = (rc, c2)" "rc \<noteq> 0"
      "out = \<lparr> engine_after = s\<lparr> g_ctx := Some c2, g_is_generating := False,
                                   g_cancel_generation := False \<rparr>,
               exit_by = Prompt_eval_failed, tokens_sampled = [],
               batches_evaluated = [batch], text_acc = [], delivered = [] \<rparr>"
  | (Loop) vocab c n written batch c2 st e where "g_model s = Some vocab" "g_ctx s = Some c"
      "GetMethodID J"
      "llama_tokenize L vocab prompt (length prompt + 128) = (n, written)" "0 \<le> n"
      "prompt_batch (prompt_tokens (length prompt + 128) written (nat n)) = Some batch"
      "llama_decode L (llama_memory_clear L c) batch = (0, c2)"
      "streaming_loop L J cr vocab (collect_stop_strings stopStrings) maxTokens 0
         \<lparr> ctx = c2, smpl = sampler_chain L topP temperature, accumulated = [], n_cur = n,
           cancel = False, sampled = [], evaluated = [batch], sink = [] \<rparr> = Some (st, e)"
      "out = \<lparr> engine_after = s\<lparr> g_ctx := Some (ctx st), g_is_generating := False,
                                   g_cancel_generation := cancel st \<rparr>,
               exit_by = e, tokens_sampled = sampled st,
               batches_evaluated = evaluated st, text_acc = accumulated st,
               delivered = sink st \<rparr>"
proof (cases "isModelLoaded s")
  case False
  with assms have "out = \<lparr> engine_after = s, exit_by = Model_absent, tokens_sampled = [],
               batches_evaluated = [], text_acc = [], delivered = [] \<rparr>"
    by (auto simp: generateStreaming_def isModelLoaded_def split: option.splits)
  with False show ?thesis by (rule Absent)
next
  case loaded: True
  then obtain vocab c where mc: "g_model s = Some vocab" "g_ctx s = Some c"
    by (auto simp: isModelLoaded_def)
  show ?thesis
  proof (cases "GetMethodID J")
    case False
    with assms mc loaded show ?thesis
      by (intro Callback) (auto simp: generateStreaming_def)
  next
    case cb: True
    obtain n written where tk: "llama_tokenize L vocab prompt (length prompt + 128) = (n, written)"
      by (cases "llama_tokenize L vocab prompt (length prompt + 128)")
    show ?thesis
    proof (cases "n < 0")
      case True
      with assms mc tk cb show ?thesis
        by (intro Tokenize [of vocab c n written]) (auto simp: generateStreaming_def)
    next
      case False
      then have n0: "0 \<le> n" by simp
      from assms mc tk cb False obtain batch where
        pb: "prompt_batch (prompt_tokens (length prompt + 128) written (nat n)) = Some batch"
        by (auto simp: generateStreaming_def Let_def split: option.splits)
      obtain rc c2 where dc: "llama_decode L (llama_memory_clear L c) batch = (rc, c2)"
        by (cases "llama_decode L (llama_memory_clear L c) batch")
      show ?thesis
      proof (cases "rc = 0")
        case False
        with assms mc tk cb n0 pb dc show ?thesis
          by (intro Prompt [of vocab c n written batch rc c2])
             (auto simp: generateStreaming_def Let_def)
      next
        case True
        with assms mc tk cb n0 pb dc obtain st e where
          lp: "streaming_loop L J cr vocab (collect_stop_strings stopStrings) maxTokens 0
           \<lparr> ctx = c2, smpl = sampler_chain L topP temperature, accumulated = [], n_cur = n,
             cancel = False, sampled = [], evaluated = [batch], sink = [] \<rparr> = Some (st, e)"
          by (auto simp: generateStreaming_def Let_def split: option.splits)
        with assms mc tk cb n0 pb dc True show ?thesis
          by (intro Loop [of vocab c n written batch c2 st e])
             (auto simp: generateStreaming_def Let_def)
      qed
    qed
  qed
qed

lemma generate_loop_cancel_flag:
  assumes "generate_loop L cr v ss maxTokens i st = Some (st', e)" and "\<not> cancel st"
  shows "(e = Cancelled \<longrightarrow> (\<exists>k. cr k)) \<and> cancel st' = (e = Cancelled)"
proof -
  let ?R = "\<lambda>(i::int) st st' e.
              \<not> cancel st \<longrightarrow> (e = Cancelled \<longrightarrow> (\<exists>k. cr k)) \<and> cancel st' = (e = Cancelled)"
  have "?R i st st' e"
  proof (rule generate_loop_rule [where R = ?R, OF assms(1)], goal_cases)
    case (1 i st)
    show ?case by simp
  next
    case step: (2 i st st2 e)
    show ?case
      by (cases rule: generate_step_elim [where st = st and cr = cr and i = i and L = L and v = v and ss = ss])
         (use step in \<open>auto simp: evaluate_token_eq split: if_splits\<close>)
  next
    case step: (3 i st st2 st3 e)
    show ?case
      by (cases rule: generate_step_elim [where st = st and cr = cr and i = i and L = L and v = v and ss = ss])
         (use step in \<open>auto simp: evaluate_token_eq split: if_splits\<close>)
  qed
  with assms(2) show ?thesis by simp
qed

lemma streaming_loop_cancel_flag:
  assumes "streaming_loop L J cr v ss maxTokens i st = Some (st', e)" and "\<not> cancel st"
  shows "(e = Cancelled \<longrightarrow> (\<exists>k. cr k)) \<and> cancel st' = (e = Cancelled)"
proof -
  let ?R = "\<lambda>(i::int) st st' e.
              \<not> cancel st \<longrightarrow> (e = Cancelled \<longrightarrow> (\<exists>k. cr k)) \<and> cancel st' = (e = Cancelled)"
  have "?R i st st' e"
  proof (rule streaming_loop_rule [where R = ?R, OF assms(1)], goal_cases)
    case (1 i st)
    show ?case by simp
  next
    case step: (2 i st st2 e)
    show ?case
      by (cases rule: streaming_step_elim [where st = st and cr = cr and i = i and L = L and v = v and ss = ss and J = J])
         (use step in \<open>auto simp: evaluate_token_eq split: if_splits\<close>)
  next
    case step: (3 i st st2 st3 e)
    show ?case
      by (cases rule: streaming_step_elim [where st = st and cr = cr and i = i and L = L and v = v and ss = ss and J = J])
         (use step in \<open>auto simp: evaluate_token_eq split: if_splits\<close>)
  qed
  with assms(2) show ?thesis by simp
qed



lemma generate_step_defined: "generate_step L cr v ss i st \<noteq> Undefined"
  by (cases rule: generate_step_elim [where st = st and cr = cr and i = i and L = L and v = v and ss = ss])
     (simp_all add: evaluate_token_eq)

lemma streaming_step_defined: "streaming_step L J cr v ss i st \<noteq> Undefined"
  by (cases rule: streaming_step_elim
        [where st = st and cr = cr and i = i and L = L and v = v and ss = ss and J = J])
     (simp_all add: evaluate_token_eq)

lemma generate_loop_returns:
  "\<exists>st' e. generate_loop L cr v ss maxTokens i st = Some (st', e)"
proof (induction "nat (maxTokens - i)" arbitrary: i st)
  case 0
  then show ?case by (simp add: generate_loop.simps)
next
  case (Suc n)
  then have lt: "i < maxTokens" by linarith
  show ?case
  proof (cases "generate_step L cr v ss i st")
    case (Break e st2)
    with lt show ?thesis by (simp add: generate_loop.simps)
  next
    case (Continue st2)
    from Suc(2) have "n = nat (maxTokens - (i + 1))" by linarith
    from Suc(1) [OF this] Continue lt show ?thesis by (simp add: generate_loop.simps)
  next
    case Undefined
    then show ?thesis by (simp add: generate_step_defined)
  qed
qed

lemma streaming_loop_returns:
  "\<exists>st' e. streaming_loop L J cr v ss maxTokens i st = Some (st', e)"
proof (induction "nat (maxTokens - i)" arbitrary: i st)
  case 0
  then show ?case by (simp add: streaming_loop.simps)
next
  case (Suc n)
  then have lt: "i < maxTokens" by linarith
  show ?case
  proof (cases "streaming_step L J cr v ss i st")
    case (Break e st2)
    with lt show ?thesis by (simp add: streaming_loop.simps)
  next
    case (Continue st2)
    from Suc(2) have "n = nat (maxTokens - (i + 1))" by linarith
    from Suc(1) [OF this] Continue lt show ?thesis by (simp add: streaming_loop.simps)
  next
    case Undefined
    then show ?thesis by (simp add: streaming_step_defined)
  qed
qed

lemma n_tokens_one_token: "n_tokens (one_token t p) = 1"
  by (simp add: one_token_def)

lemma prompt_tokens_length: "length (prompt_tokens capacity written n) = n"
  by (simp add: prompt_tokens_def)

text \<open>\<open>generate\<close> returns whenever the prompt has at least one token.\<close>

lemma generate_returns:
  assumes "g_model s = Some vocab" and "g_ctx s = Some c"
    and "llama_tokenize L vocab prompt (length prompt + 128) = (n, written)" and "0 < n"
  shows "\<exists>out. generate L cr prompt maxTokens temperature topP stopStrings s = Some out"
proof -
  let ?tokens = "prompt_tokens (length prompt + 128) written (nat n)"
  from assms(4) have "?tokens \<noteq> []"
    using prompt_tokens_length [of "length prompt + 128" written "nat n"] by auto
  from prompt_batch_entries [OF this] obtain b where b: "prompt_batch ?tokens = Some b"
    by blast
  obtain rc c2 where dc: "llama_decode L (llama_memory_clear L c) b = (rc, c2)"
    by (cases "llama_decode L (llama_memory_clear L c) b")
  have "\<exists>st e. generate_loop L cr vocab (collect_stop_strings stopStrings) maxTokens 0
         \<lparr> ctx = c2, smpl = sampler_chain L topP temperature, accumulated = [], n_cur = n,
           cancel = False, sampled = [], evaluated = [b] \<rparr> = Some (st, e)"
    by (rule generate_loop_returns)
  then obtain st e where lp: "generate_loop L cr vocab (collect_stop_strings stopStrings) maxTokens 0
         \<lparr> ctx = c2, smpl = sampler_chain L topP temperature, accumulated = [], n_cur = n,
           cancel = False, sampled = [], evaluated = [b] \<rparr> = Some (st, e)"
    by blast
  from assms b dc lp show ?thesis
    by (simp add: generate_def Let_def)
qed

section \<open>What the sink receives\<close>

lemma clear_of_iff:
  "clear_of ss full d \<longleftrightarrow>
     d \<noteq> [] \<and> (\<exists>before after. full = before @ d @ after \<and>
                   \<not> streaming_stop_check (before @ d) ss)"
proof
  assume "clear_of ss full d"
  then obtain k where k: "d \<noteq> []" "length d \<le> length full" "k < Suc (length full - length d)"
    "take (length d) (drop k full) = d"
    "\<not> streaming_stop_check (take (k + length d) full) ss"
    by (auto simp: clear_of_def list_ex_iff occurs_at_def simp del: upt_Suc)
  have "full = take k full @ take (length d) (drop k full) @ drop (length d) (drop k full)"
    by (metis append_take_drop_id)
  with k(4) have split: "full = take k full @ d @ drop (length d) (drop k full)"
    by simp
  have "take (k + length d) full = take k full @ take (length d) (drop k full)"
    by (simp add: take_add)
  with k(4,5) have "\<not> streaming_stop_check (take k full @ d) ss"
    by simp
  with k(1) split show "d \<noteq> [] \<and> (\<exists>before after. full = before @ d @ after \<and>
                   \<not> streaming_stop_check (before @ d) ss)"
    by blast
next
  assume "d \<noteq> [] \<and> (\<exists>before after. full = before @ d @ after \<and>
                   \<not> streaming_stop_check (before @ d) ss)"
  then obtain before after where s: "d \<noteq> []" "full = before @ d @ after"
    "\<not> streaming_stop_check (before @ d) ss"
    by blast
  then have "occurs_at full d (length before)"
    and "take (length before + length d) full = before @ d"
    and "length before \<le> length full - length d"
    by (simp_all add: occurs_at_def)
  with s show "clear_of ss full d"
    unfolding clear_of_def list_ex_iff by (auto intro!: bexI [of _ "length before"] simp del: upt_Suc)
qed

lemma clear_of_append: "clear_of ss A d \<Longrightarrow> clear_of ss (A @ x) d"
  unfolding clear_of_iff by (metis append.assoc)

lemma clear_of_last:
  "d \<noteq> [] \<Longrightarrow> \<not> streaming_stop_check (a @ d) ss \<Longrightarrow> clear_of ss (a @ d @ x) d"
  unfolding clear_of_iff by blast

lemma streaming_loop_sink:
  assumes "streaming_loop L J cr v ss maxTokens i st = Some (st', e)"
  shows "\<exists>x new. sink st' = sink st @ map c_str new \<and> list_all (clear_of ss (accumulated st @ x)) new \<and>
           (e = Stop_string \<longrightarrow>
              (\<exists>decoded. decoded \<noteq> [] \<and> accumulated st' = accumulated st @ x @ decoded \<and>
                         streaming_stop_check (accumulated st') ss)) \<and>
           (e \<noteq> Stop_string \<longrightarrow> accumulated st' = accumulated st @ x)"
proof -
  let ?R = "\<lambda>(i::int) st st' e.
        \<exists>x new. sink st' = sink st @ map c_str new \<and> list_all (clear_of ss (accumulated st @ x)) new \<and>
           (e = Stop_string \<longrightarrow>
              (\<exists>decoded. decoded \<noteq> [] \<and> accumulated st' = accumulated st @ x @ decoded \<and>
                         streaming_stop_check (accumulated st') ss)) \<and>
           (e \<noteq> Stop_string \<longrightarrow> accumulated st' = accumulated st @ x)"
  have "?R i st st' e"
  proof (rule streaming_loop_rule [where R = ?R, OF assms], goal_cases)
    case (1 i st)
    show ?case by (intro exI [of _ "[]"]) simp
  next
    case step: (2 i st st2 e)
    show ?case
    proof (cases rule: streaming_step_elim
        [where st = st and cr = cr and i = i and L = L and v = v and ss = ss and J = J])
      case Cancel
      with step show ?thesis by (intro exI [of _ "[]"]) auto
    next
      case (Eog t s')
      with step show ?thesis by (intro exI [of _ "[]"]) auto
    next
      case (NoPiece t s')
      with step show ?thesis
        by (intro exI [of _ "[]"]) (auto simp: evaluate_token_eq split: if_splits)
    next
      case (Match t s' decoded)
      then have "decoded \<noteq> []" by (auto dest: token_piece_nonempty)
      with Match step show ?thesis
        by (intro exI [of _ "[]"]) auto
    next
      case (Dropped t s' decoded)
      with step show ?thesis
        by (intro exI [of _ decoded] exI [of _ "[]"]) (auto simp: evaluate_token_eq split: if_splits)
    next
      case (Thrown t s' decoded)
      then have "clear_of ss (accumulated st @ decoded) decoded"
        using clear_of_last [of decoded "accumulated st" ss "[]"]
        by (auto dest: token_piece_nonempty)
      with Thrown step show ?thesis
        by (intro exI [of _ decoded] exI [of _ "[decoded]"]) auto
    next
      case (Delivered t s' decoded)
      then have "clear_of ss (accumulated st @ decoded) decoded"
        using clear_of_last [of decoded "accumulated st" ss "[]"]
        by (auto dest: token_piece_nonempty)
      with Delivered step show ?thesis
        by (intro exI [of _ decoded] exI [of _ "[decoded]"])
           (auto simp: evaluate_token_eq split: if_splits)
    qed
  next
    case step: (3 i st st2 st3 e)
    from step(3) obtain x new where rest: "sink st3 = sink st2 @ map c_str new"
      "list_all (clear_of ss (accumulated st2 @ x)) new"
      "e = Stop_string \<longrightarrow>
         (\<exists>decoded. decoded \<noteq> [] \<and> accumulated st3 = accumulated st2 @ x @ decoded \<and>
                    streaming_stop_check (accumulated st3) ss)"
      "e \<noteq> Stop_string \<longrightarrow> accumulated st3 = accumulated st2 @ x"
      by blast
    show ?case
    proof (cases rule: streaming_step_elim
        [where st = st and cr = cr and i = i and L = L and v = v and ss = ss and J = J])
      case (NoPiece t s')
      with step(2) have "sink st2 = sink st" "accumulated st2 = accumulated st"
        by (auto simp: evaluate_token_eq split: if_splits)
      with rest show ?thesis
        by (intro exI [of _ x] exI [of _ new]) auto
    next
      case (Dropped t s' decoded)
      with step(2) have "sink st2 = sink st" "accumulated st2 = accumulated st @ decoded"
        by (auto simp: evaluate_token_eq split: if_splits)
      with rest show ?thesis
        by (intro exI [of _ "decoded @ x"] exI [of _ new]) auto
    next
      case (Delivered t s' decoded)
      then have "clear_of ss (accumulated st @ decoded @ x) decoded"
        using clear_of_last [of decoded "accumulated st" ss x]
        by (auto dest: token_piece_nonempty)
      moreover from Delivered step(2)
      have "sink st2 = sink st @ [c_str decoded]" "accumulated st2 = accumulated st @ decoded"
        by (auto simp: evaluate_token_eq split: if_splits)
      ultimately show ?thesis using rest
        by (intro exI [of _ "decoded @ x"] exI [of _ "decoded # new"]) auto
    qed (use step(2) in auto)
  qed
  then show ?thesis .
qed

section \<open>Model lifecycle\<close>

lemma report_progress_eq:
  "report_progress reports s = s\<lparr> g_load_progress := last (g_load_progress s # reports) \<rparr>"
  by (induction reports arbitrary: s) (simp_all add: model_load_progress_def)

text \<open>A load that fails leaves no model and no context behind.\<close>

lemma loadModel_failed_not_loaded:
  "loadModel L modelPath nThreads s = (False, s') \<Longrightarrow> g_model s' = None \<and> g_ctx s' = None"
  by (auto simp: loadModel_def Let_def report_progress_eq
           split: option.splits prod.splits if_splits)

text \<open>A load succeeds whenever the library delivers the model and the context.\<close>

lemma loadModel_succeeds:
  assumes "llama_model_load_from_file L path = (reports, Some m)"
    and "llama_init_from_model L m 2048 nThreads = Some c"
  shows "fst (loadModel L (Some path) nThreads s) = True"
    and "isModelLoaded (snd (loadModel L (Some path) nThreads s))"
    and "getLoadProgress (snd (loadModel L (Some path) nThreads s)) = 1"
  using assms by (simp_all add: loadModel_def Let_def isModelLoaded_def getLoadProgress_def)

text \<open>
  When the weights load and the context cannot be built, the progress stays where the
  last report of the loader left it.
\<close>

lemma loadModel_context_failure_progress:
  assumes "llama_model_load_from_file L path = (reports, Some m)"
    and "llama_init_from_model L m 2048 nThreads = None"
  shows "loadModel L (Some path) nThreads s =
           (False, s\<lparr> g_ctx := None, g_model := None, g_load_progress := last (0 # reports) \<rparr>)"
  using assms
  by (cases "g_ctx s"; cases "g_model s") (simp_all add: loadModel_def Let_def report_progress_eq)

text \<open>
  C2. After a failed \<open>loadModel\<close> the claim wants \<open>getLoadProgress\<close> to be 0. With a loader
  that reports progress up to 1 and a context that cannot be built (here: a thread count
  of 0 with \<open>script_llama\<close>), \<open>loadModel\<close> answers false, nothing is loaded, and
  \<open>getLoadProgress\<close> is 1: neither failure path stores into \<open>g_load_progress\<close>.
\<close>

theorem loadModel_failure_keeps_progress:
  "fst (loadModel (script_llama [] 0) (Some ''model.gguf'') 0 initial) = False \<and>
   \<not> isModelLoaded (snd (loadModel (script_llama [] 0) (Some ''model.gguf'') 0 initial)) \<and>
   getLoadProgress (snd (loadModel (script_llama [] 0) (Some ''model.gguf'') 0 initial)) = 1"
  by (simp add: loadModel_def script_llama_def initial_def model_load_progress_def
        getLoadProgress_def isModelLoaded_def)

text \<open>
  C8. \<open>unloadModel\<close> is idempotent: a second call changes nothing; after any call
  \<open>isModelLoaded\<close> is false and \<open>getLoadProgress\<close> is 0; and with nothing loaded the call
  touches no handle, it only stores 0 into the progress.
\<close>

theorem unloadModel_idempotent:
  "unloadModel (unloadModel s) = unloadModel s \<and>
   \<not> isModelLoaded (unloadModel s) \<and>
   getLoadProgress (unloadModel s) = 0 \<and>
   (g_model s = None \<and> g_ctx s = None \<longrightarrow> unloadModel s = s\<lparr> g_load_progress := 0 \<rparr>)"
  by (simp add: unloadModel_def isModelLoaded_def getLoadProgress_def Let_def)

theorem unloadModel_idempotent_witness:
  "g_model (initial :: (unit, nat) engine) = None \<and> g_ctx (initial :: (unit, nat) engine) = None \<and>
   unloadModel (initial :: (unit, nat) engine) = initial \<and>
   unloadModel (unloadModel loaded) = unloadModel loaded \<and>
   \<not> isModelLoaded (unloadModel loaded) \<and>
   getLoadProgress (unloadModel loaded) = 0"
  using unloadModel_idempotent [of "initial :: (unit, nat) engine"] unloadModel_idempotent [of loaded]
  by (simp add: initial_def)

lemmas run_defs = generate_def generateStreaming_def script_llama_def loaded_def never_def
  cancel_before_def collect_stop_strings_def prompt_tokens_def prompt_batch_def
  llama_batch_init_def batch_add_token_def store_def sampler_chain_def generate_step_def
  streaming_step_def poll_cancel_def sample_token_def token_piece_def evaluate_token_def
  single_batch_def script_piece_def str_find_def str_rfind_def occurs_at_def size_of_def
  accepting_def generate_loop.simps streaming_loop.simps unsigned_minus_1_eq_mask
  mask_eq_exp_minus_1 c_str_def

lemma run_cancelled:
  "generate (script_llama [1, 3, 1] 100) (cancel_before 1) ''Hi'' 5 (4 / 5) (9 / 10)
     (Some [''!'']) loaded = Some cancelled_run"
  by (simp add: run_defs cancelled_run_def hi_batch_def one_token_def)

lemma run_failed:
  "generate (script_llama [1, 3, 1] 2) never ''Hi'' 5 (4 / 5) (9 / 10)
     (Some [''!'']) loaded = Some failed_run"
  by (simp add: run_defs failed_run_def hi_batch_def one_token_def)

lemma run_budget:
  "generate (script_llama [1, 3, 1] 100) never ''Hi'' 2 (4 / 5) (9 / 10)
     (Some [''!'']) loaded = Some budget_run"
  by (simp add: run_defs budget_run_def hi_batch_def one_token_def)

lemma stream_budget:
  "generateStreaming (script_llama [1, 3, 1] 100) accepting never ''Hi'' 2 (4 / 5) (9 / 10)
     (Some [''!'']) loaded = Some budget_stream"
  by (simp add: run_defs budget_stream_def hi_batch_def one_token_def)

lemma stream_stopped:
  "generateStreaming (script_llama [1, 2, 3] 100) accepting never ''Hi'' 5 (4 / 5) (9 / 10)
     (Some [''!'']) loaded = Some stopped_stream"
  by (simp add: run_defs stopped_stream_def hi_batch_def one_token_def)

lemma seeded_cancelled:
  "generate (seeded_llama [1, 3, 1] 100) (cancel_before 1) ''Hi'' 5 (4 / 5) (9 / 10)
     (Some [''!'']) loaded = Some cancelled_run"
  by (simp add: run_defs seeded_llama_def cancelled_run_def hi_batch_def one_token_def)

lemma seeded_budget:
  "generate (seeded_llama [1, 3, 1] 100) never ''Hi'' 2 (4 / 5) (9 / 10)
     (Some [''!'']) loaded = Some budget_run"
  by (simp add: run_defs seeded_llama_def budget_run_def hi_batch_def one_token_def)

lemma seeded_stream_budget:
  "generateStreaming (seeded_llama [1, 3, 1] 100) accepting never ''Hi'' 2 (4 / 5) (9 / 10)
     (Some [''!'']) loaded = Some budget_stream"
  by (simp add: run_defs seeded_llama_def budget_stream_def hi_batch_def one_token_def)

lemma seeded_full:
  "generate ((seeded_llama [1, 3, 1] 100)\<lparr> llama_sampler_chain_add := other_seeds \<rparr>) never
     ''Hi'' 5 (4 / 5) (9 / 10) (Some [''!'']) used = Some full_run"
  by (simp add: run_defs seeded_llama_def used_def full_run_def hi_batch_def one_token_def other_seeds_def)

lemma seeded_used_budget:
  "generate ((seeded_llama [1, 3, 1] 100)\<lparr> llama_sampler_chain_add := other_seeds \<rparr>) never
     ''Hi'' 2 (4 / 5) (9 / 10) (Some [''!'']) used = Some used_budget_run"
  by (simp add: run_defs seeded_llama_def used_def used_budget_run_def budget_run_def hi_batch_def one_token_def
        other_seeds_def)

lemma seeded_refused:
  "generateStreaming ((seeded_llama [1, 3, 1] 100)\<lparr> llama_sampler_chain_add := other_seeds \<rparr>)
     refusing never ''Hi'' 2 (4 / 5) (9 / 10) (Some [''!'']) used = Some refused_stream"
  by (simp add: run_defs seeded_llama_def used_def refused_stream_def hi_batch_def one_token_def other_seeds_def
        refusing_def)

section \<open>Cancellation\<close>




section \<open>Evaluation failure\<close>




section \<open>Batch construction\<close>

text \<open>With no token in the prompt the store into \<open>batch.logits[-1]\<close> is out of bounds.\<close>

lemma generate_empty_prompt:
  assumes "g_model s = Some vocab" and "g_ctx s = Some c"
    and "llama_tokenize L vocab prompt (length prompt + 128) = (0, written)"
  shows "generate L cancel_req prompt maxTokens temperature topP stopStrings s = None"
  using assms by (simp add: generate_def prompt_tokens_def prompt_batch_empty)

text \<open>
  C7. For a prompt of \<open>n \<ge> 1\<close> tokens \<open>generate\<close> returns, and the batches it handed to
  the library are: first one batch with the \<open>n\<close> prompt tokens at positions \<open>0\<close> to
  \<open>n - 1\<close>, sequence id 0, and the logits flag on the last entry only; then, for the
  \<open>k\<close>-th token sampled (counting from 0), one batch with that token alone at position
  \<open>n + k\<close> with the logits flag set.
\<close>

theorem batch_construction:
  assumes "g_model s = Some vocab" and "g_ctx s = Some c"
    and "llama_tokenize L vocab prompt (length prompt + 128) = (n, written)" and "0 < n"
  shows "\<exists>out. generate L cancel_req prompt maxTokens temperature topP stopStrings s = Some out \<and>
           batches_evaluated out \<noteq> [] \<and>
           n_tokens (hd (batches_evaluated out)) = n \<and>
           entries (hd (batches_evaluated out)) =
             map (\<lambda>j. (prompt_tokens (length prompt + 128) written (nat n) ! j, int j, [0],
                       if Suc j = nat n then 1 else 0)) [0..<nat n] \<and>
           (\<forall>k. Suc k < length (batches_evaluated out) \<longrightarrow>
                k < length (tokens_sampled out) \<and>
                n_tokens (batches_evaluated out ! Suc k) = 1 \<and>
                entries (batches_evaluated out ! Suc k) =
                  [(tokens_sampled out ! k, n + int k, [0], 1)])"
proof -
  let ?tokens = "prompt_tokens (length prompt + 128) written (nat n)"
  from generate_returns [OF assms] obtain out where
    out: "generate L cancel_req prompt maxTokens temperature topP stopStrings s = Some out"
    by blast
  from assms(4) have len: "length ?tokens = nat n" and ne: "?tokens \<noteq> []"
    using prompt_tokens_length [of "length prompt + 128" written "nat n"] by auto
  from prompt_batch_entries [OF ne] len obtain b where b: "prompt_batch ?tokens = Some b"
    "n_tokens b = int (nat n)"
    "entries b = map (\<lambda>j. (?tokens ! j, int j, [0], if Suc j = nat n then 1 else 0)) [0..<nat n]"
    by auto
  from out have "batches_evaluated out \<noteq> [] \<and> hd (batches_evaluated out) = b \<and>
           (\<forall>k. Suc k < length (batches_evaluated out) \<longrightarrow>
                k < length (tokens_sampled out) \<and>
                batches_evaluated out ! Suc k = one_token (tokens_sampled out ! k) (n + int k))"
  proof (cases rule: generate_cases)
    case Absent
    with assms show ?thesis by (simp add: isModelLoaded_def)
  next
    case (Tokenize vocab' c' n' written')
    with assms show ?thesis by simp
  next
    case (Prompt vocab' c' n' written' batch rc c2)
    with assms b show ?thesis by simp
  next
    case (Loop vocab' c' n' written' batch c2 st e)
    with assms b have same: "batch = b" "n' = n" by simp_all
    from Loop(7) obtain toks where toks: "sampled st = toks"
      "e \<in> {End_of_generation, Stop_string} \<Longrightarrow> evaluated st = batch # singles (butlast toks) n'"
      "e \<notin> {End_of_generation, Stop_string} \<Longrightarrow> evaluated st = batch # singles toks n'"
      by (rule generate_loop_history) simp
    show ?thesis
    proof (cases "e \<in> {End_of_generation, Stop_string}")
      case True
      with toks have ev: "evaluated st = b # singles (butlast (sampled st)) n"
        using same by simp
      with Loop(8) show ?thesis
        by (auto simp: singles_length singles_nth nth_butlast)
    next
      case False
      with toks have ev: "evaluated st = b # singles (sampled st) n"
        using same by simp
      with Loop(8) show ?thesis
        by (auto simp: singles_length singles_nth)
    qed
  qed
  with out b assms(4) show ?thesis
    by (auto simp: entries_one_token n_tokens_one_token)
qed

theorem batch_construction_witness:
  "g_model loaded = Some () \<and> g_ctx loaded = Some 0 \<and>
   llama_tokenize (script_llama [1, 3, 1] 2) () ''Hi'' (length ''Hi'' + 128) = (2, [72, 105]) \<and>
   (0 :: int) < 2 \<and>
   generate (script_llama [1, 3, 1] 2) never ''Hi'' 5 (4 / 5) (9 / 10) (Some [''!'']) loaded =
     Some failed_run \<and>
   entries (hd (batches_evaluated failed_run)) = [(72, 0, [0], 0), (105, 1, [0], 1)] \<and>
   entries (batches_evaluated failed_run ! 1) = [(1, 2, [0], 1)] \<and>
   entries (batches_evaluated failed_run ! 2) = [(3, 3, [0], 1)]"
proof -
  have tok: "llama_tokenize (script_llama [1, 3, 1] 2) () ''Hi'' (length ''Hi'' + 128) =
               (2, [72, 105])"
    by (simp add: script_llama_def)
  have handles: "g_model loaded = Some ()" "g_ctx loaded = Some 0"
    by (simp_all add: loaded_def)
  have "\<exists>out. generate (script_llama [1, 3, 1] 2) never ''Hi'' 5 (4 / 5) (9 / 10)
                (Some [''!'']) loaded = Some out \<and>
           batches_evaluated out \<noteq> [] \<and>
           n_tokens (hd (batches_evaluated out)) = 2 \<and>
           entries (hd (batches_evaluated out)) =
             map (\<lambda>j. (prompt_tokens (length ''Hi'' + 128) [72, 105] (nat 2) ! j, int j, [0],
                       if Suc j = nat 2 then 1 else 0)) [0..<nat 2] \<and>
           (\<forall>k. Suc k < length (batches_evaluated out) \<longrightarrow>
                k < length (tokens_sampled out) \<and>
                n_tokens (batches_evaluated out ! Suc k) = 1 \<and>
                entries (batches_evaluated out ! Suc k) =
                  [(tokens_sampled out ! k, 2 + int k, [0], 1)])"
    by (rule batch_construction [OF handles tok]) simp
  then have "entries (hd (batches_evaluated failed_run)) =
          map (\<lambda>j. (prompt_tokens (length ''Hi'' + 128) [72, 105] (nat 2) ! j, int j, [0],
                    if Suc j = nat 2 then 1 else 0)) [0..<nat 2] \<and>
        (\<forall>k. Suc k < length (batches_evaluated failed_run) \<longrightarrow>
             entries (batches_evaluated failed_run ! Suc k) =
               [(tokens_sampled failed_run ! k, 2 + int k, [0], 1)])"
    unfolding run_failed by simp
  then have "entries (hd (batches_evaluated failed_run)) = [(72, 0, [0], 0), (105, 1, [0], 1)]"
    and "entries (batches_evaluated failed_run ! Suc 0) = [(tokens_sampled failed_run ! 0, 2 + int 0, [0], 1)]"
    and "entries (batches_evaluated failed_run ! Suc 1) = [(tokens_sampled failed_run ! 1, 2 + int 1, [0], 1)]"
    by (simp_all add: prompt_tokens_def failed_run_def entries_one_token upt_rec [of 0]
          upt_rec [of 1] upt_rec [of "Suc 0"] nth_Cons')
  with tok run_failed handles show ?thesis
    by (simp add: failed_run_def)
qed

section \<open>The two flags\<close>

text \<open>
  C9. With a model loaded, a \<open>cancelGeneration\<close> before the call changes nothing: either
  generation call gives the same outcome and leaves the same engine state as without it,
  because the flag is cleared at entry. A call ends by cancellation only if a cancel
  request arrives at one of its polls, and the flag is set afterwards exactly when the call
  ended that way.
\<close>

theorem cancel_flag_cleared_at_entry:
  assumes "isModelLoaded s"
  shows "generate L cancel_req prompt maxTokens temperature topP stopStrings (cancelGeneration s) =
           generate L cancel_req prompt maxTokens temperature topP stopStrings s \<and>
         generateStreaming L J cancel_req prompt maxTokens temperature topP stopStrings
             (cancelGeneration s) =
           generateStreaming L J cancel_req prompt maxTokens temperature topP stopStrings s \<and>
         (generate L cancel_req prompt maxTokens temperature topP stopStrings
             (cancelGeneration s) = Some out \<longrightarrow>
            (exit_by out = Cancelled \<longrightarrow> (\<exists>k. cancel_req k)) \<and>
            g_cancel_generation (engine_after out) = (exit_by out = Cancelled)) \<and>
         (generateStreaming L J cancel_req prompt maxTokens temperature topP stopStrings
             (cancelGeneration s) = Some sout \<longrightarrow>
            (exit_by sout = Cancelled \<longrightarrow> (\<exists>k. cancel_req k)) \<and>
            g_cancel_generation (engine_after sout) = (exit_by sout = Cancelled))"
proof -
  from assms obtain vocab c where mc: "g_model s = Some vocab" "g_ctx s = Some c"
    by (auto simp: isModelLoaded_def)
  have entry: "(cancelGeneration s)\<lparr> g_is_generating := True, g_cancel_generation := False \<rparr> =
                 s\<lparr> g_is_generating := True, g_cancel_generation := False \<rparr>"
    by (simp add: cancelGeneration_def)
  have g: "generate L cancel_req prompt maxTokens temperature topP stopStrings (cancelGeneration s) =
           generate L cancel_req prompt maxTokens temperature topP stopStrings s"
    unfolding generate_def entry using mc by (simp add: cancelGeneration_def)
  have gs: "generateStreaming L J cancel_req prompt maxTokens temperature topP stopStrings
             (cancelGeneration s) =
           generateStreaming L J cancel_req prompt maxTokens temperature topP stopStrings s"
    unfolding generateStreaming_def entry using mc by (simp add: cancelGeneration_def)
  have "(exit_by out = Cancelled \<longrightarrow> (\<exists>k. cancel_req k)) \<and>
        g_cancel_generation (engine_after out) = (exit_by out = Cancelled)"
    if "generate L cancel_req prompt maxTokens temperature topP stopStrings s = Some out"
    using that
  proof (cases rule: generate_cases)
    case (Loop vocab c n written batch c2 st e)
    from generate_loop_cancel_flag [OF Loop(7)] Loop(8) show ?thesis by simp
  qed (use assms in simp_all)
  moreover have "(exit_by sout = Cancelled \<longrightarrow> (\<exists>k. cancel_req k)) \<and>
        g_cancel_generation (engine_after sout) = (exit_by sout = Cancelled)"
    if "generateStreaming L J cancel_req prompt maxTokens temperature topP stopStrings s =
          Some sout"
    using that
  proof (cases rule: generateStreaming_cases)
    case (Loop vocab c n written batch c2 st e)
    from streaming_loop_cancel_flag [OF Loop(8)] Loop(9) show ?thesis by simp
  qed (use assms in simp_all)
  ultimately show ?thesis using g gs by simp
qed

theorem cancel_flag_cleared_at_entry_witness:
  "isModelLoaded loaded \<and>
   generate (script_llama [1, 3, 1] 100) never ''Hi'' 2 (4 / 5) (9 / 10) (Some [''!''])
     (cancelGeneration loaded) = Some budget_run \<and>
   generateStreaming (script_llama [1, 3, 1] 100) accepting never ''Hi'' 2 (4 / 5) (9 / 10)
     (Some [''!'']) (cancelGeneration loaded) = Some budget_stream \<and>
   g_cancel_generation (cancelGeneration loaded) \<and>
   exit_by budget_run \<noteq> Cancelled \<and> \<not> g_cancel_generation (engine_after budget_run) \<and>
   exit_by budget_stream \<noteq> Cancelled \<and> \<not> g_cancel_generation (engine_after budget_stream)"
proof -
  have ld: "isModelLoaded loaded" by (simp add: isModelLoaded_def loaded_def)
  from cancel_flag_cleared_at_entry
    [OF ld, where L = "script_llama [1, 3, 1] 100" and J = accepting and cancel_req = never
       and prompt = "''Hi''" and maxTokens = 2 and temperature = "4 / 5" and topP = "9 / 10"
       and stopStrings = "Some [''!'']" and out = budget_run and sout = budget_stream]
  have "generate (script_llama [1, 3, 1] 100) never ''Hi'' 2 (4 / 5) (9 / 10) (Some [''!''])
     (cancelGeneration loaded) = Some budget_run \<and>
   generateStreaming (script_llama [1, 3, 1] 100) accepting never ''Hi'' 2 (4 / 5) (9 / 10)
     (Some [''!'']) (cancelGeneration loaded) = Some budget_stream \<and>
   g_cancel_generation (engine_after budget_run) = (exit_by budget_run = Cancelled) \<and>
   g_cancel_generation (engine_after budget_stream) = (exit_by budget_stream = Cancelled)"
    by (simp add: run_budget stream_budget)
  with ld show ?thesis
    by (simp add: budget_run_def budget_stream_def cancelGeneration_def)
qed

text \<open>The lifecycle operations leave the generating flag alone.\<close>

lemma operations_keep_flag_down:
  "\<not> isGenerating (initial :: ('m, 'c) engine)"
  "\<not> isGenerating s \<Longrightarrow> \<not> isGenerating (snd (loadModel L modelPath nThreads s))"
  "\<not> isGenerating s \<Longrightarrow> \<not> isGenerating (unloadModel s)"
  "\<not> isGenerating s \<Longrightarrow> \<not> isGenerating (cancelGeneration s)"
  by (auto simp: isGenerating_def initial_def loadModel_def unloadModel_def cancelGeneration_def
        Let_def report_progress_eq split: option.splits prod.splits)

text \<open>
  Past the model check a generation call clears the flag before it returns; at the model
  check it returns with the engine as it found it.
\<close>

lemma generate_flag:
  assumes "generate L cr prompt maxTokens temperature topP stopStrings s = Some out"
  shows "isModelLoaded s \<Longrightarrow> \<not> isGenerating (engine_after out)"
    and "\<not> isModelLoaded s \<Longrightarrow> engine_after out = s \<and> exit_by out = Model_absent"
proof -
  show "\<not> isGenerating (engine_after out)" if "isModelLoaded s"
    using assms
    by (cases rule: generate_cases) (use that in \<open>simp_all add: isGenerating_def\<close>)
  show "engine_after out = s \<and> exit_by out = Model_absent" if "\<not> isModelLoaded s"
    using assms
    by (cases rule: generate_cases) (use that in \<open>simp_all add: isModelLoaded_def\<close>)
qed

lemma generateStreaming_flag:
  assumes "generateStreaming L J cr prompt maxTokens temperature topP stopStrings s = Some out"
  shows "isModelLoaded s \<Longrightarrow> \<not> isGenerating (engine_after out)"
    and "\<not> isModelLoaded s \<Longrightarrow> engine_after out = s \<and> exit_by out = Model_absent"
proof -
  show "\<not> isGenerating (engine_after out)" if "isModelLoaded s"
    using assms
    by (cases rule: generateStreaming_cases) (use that in \<open>simp_all add: isGenerating_def\<close>)
  show "engine_after out = s \<and> exit_by out = Model_absent" if "\<not> isModelLoaded s"
    using assms
    by (cases rule: generateStreaming_cases) (use that in \<open>simp_all add: isModelLoaded_def\<close>)
qed

lemma perform_keeps_flag_down:
  assumes "perform L x s = Some s'" and "\<not> isGenerating s"
  shows "\<not> isGenerating s'"
proof (cases x)
  case (Generate cancel_req prompt maxTokens temperature topP stopStrings)
  with assms obtain out where
    "generate L cancel_req prompt maxTokens temperature topP stopStrings s = Some out"
    "s' = engine_after out"
    by auto
  with assms(2) show ?thesis
    using generate_flag [of L cancel_req prompt maxTokens temperature topP stopStrings s out]
    by (cases "isModelLoaded s") auto
next
  case (GenerateStreaming J cancel_req prompt maxTokens temperature topP stopStrings)
  with assms obtain out where
    "generateStreaming L J cancel_req prompt maxTokens temperature topP stopStrings s = Some out"
    "s' = engine_after out"
    by auto
  with assms(2) show ?thesis
    using generateStreaming_flag
            [of L J cancel_req prompt maxTokens temperature topP stopStrings s out]
    by (cases "isModelLoaded s") auto
qed (use assms in \<open>auto simp: operations_keep_flag_down\<close>)

lemma flag_down_between_operations:
  assumes "engine_after_all L xs s = Some s'" and "\<not> isGenerating s"
  shows "\<not> isGenerating s'"
  using assms
proof (induction xs arbitrary: s)
  case Nil
  then show ?case by simp
next
  case (Cons x xs)
  then show ?case
    by (auto dest: perform_keeps_flag_down split: option.splits)
qed

text \<open>The entry value of the generating flag makes no difference to a call on a loaded model.\<close>

lemma entry_flag_overwritten:
  assumes "isModelLoaded s"
  shows "generate L cr prompt maxTokens temperature topP stopStrings (s\<lparr> g_is_generating := b \<rparr>) =
           generate L cr prompt maxTokens temperature topP stopStrings s"
    and "generateStreaming L J cr prompt maxTokens temperature topP stopStrings
             (s\<lparr> g_is_generating := b \<rparr>) =
           generateStreaming L J cr prompt maxTokens temperature topP stopStrings s"
proof -
  from assms obtain vocab c where mc: "g_model s = Some vocab" "g_ctx s = Some c"
    by (auto simp: isModelLoaded_def)
  have entry: "s\<lparr> g_is_generating := b, g_is_generating := True, g_cancel_generation := False \<rparr> =
                 s\<lparr> g_is_generating := True, g_cancel_generation := False \<rparr>"
    by simp
  show "generate L cr prompt maxTokens temperature topP stopStrings (s\<lparr> g_is_generating := b \<rparr>) =
           generate L cr prompt maxTokens temperature topP stopStrings s"
    unfolding generate_def entry using mc by simp
  show "generateStreaming L J cr prompt maxTokens temperature topP stopStrings
             (s\<lparr> g_is_generating := b \<rparr>) =
           generateStreaming L J cr prompt maxTokens temperature topP stopStrings s"
    unfolding generateStreaming_def entry using mc by simp
qed

lemma load_gives_loaded:
  "snd (loadModel (script_llama script fail_from) (Some ''model.gguf'') 4 initial) = loaded"
  by (simp add: loadModel_def script_llama_def initial_def loaded_def model_load_progress_def)

lemma history_cancelled:
  "engine_after_all (script_llama [1, 3, 1] 100)
     [LoadModel (Some ''model.gguf'') 4,
      Generate (cancel_before 1) ''Hi'' 5 (4 / 5) (9 / 10) (Some [''!'']),
      CancelGeneration] initial = Some (engine_after cancelled_run)"
  by (simp only: engine_after_all.simps perform.simps load_gives_loaded run_cancelled
        option.simps option.map)
     (simp add: cancelGeneration_def cancelled_run_def)

lemma stream_after_cancelled:
  "generateStreaming (script_llama [1, 3, 1] 100) accepting never ''Hi'' 2 (4 / 5) (9 / 10)
     (Some [''!'']) (engine_after cancelled_run) = Some budget_stream"
  by (simp add: run_defs cancelled_run_def budget_stream_def hi_batch_def one_token_def)

text \<open>
  C10. After any sequence of operations from the initial state the generating flag is down,
  so it is down after every generation call of either variant, whichever way the call
  ends. Past the model check the call clears the flag before each return, whatever the
  flag was at entry; with no model loaded the call returns at once and leaves the engine
  as it found it, the flag included.
\<close>

theorem generating_flag_reset:
  "(engine_after_all L history initial = Some s \<longrightarrow> \<not> isGenerating s) \<and>
   (engine_after_all L history initial = Some s \<and>
    generate L cancel_req prompt maxTokens temperature topP stopStrings s = Some out \<longrightarrow>
      \<not> isGenerating (engine_after out)) \<and>
   (engine_after_all L history initial = Some s \<and>
    generateStreaming L J cancel_req prompt maxTokens temperature topP stopStrings s = Some sout \<longrightarrow>
      \<not> isGenerating (engine_after sout)) \<and>
   (isModelLoaded s \<and>
    generate L cancel_req prompt maxTokens temperature topP stopStrings s = Some out \<longrightarrow>
      \<not> isGenerating (engine_after out)) \<and>
   (isModelLoaded s \<and>
    generateStreaming L J cancel_req prompt maxTokens temperature topP stopStrings s = Some sout \<longrightarrow>
      \<not> isGenerating (engine_after sout)) \<and>
   (\<not> isModelLoaded s \<and>
    generate L cancel_req prompt maxTokens temperature topP stopStrings s = Some out \<longrightarrow>
      engine_after out = s) \<and>
   (\<not> isModelLoaded s \<and>
    generateStreaming L J cancel_req prompt maxTokens temperature topP stopStrings s = Some sout \<longrightarrow>
      engine_after sout = s)"
proof (intro conjI impI)
  have start: "\<not> isGenerating (initial :: ('a, 'b) engine)"
    by (rule operations_keep_flag_down)
  {
    assume "engine_after_all L history initial = Some s"
    from flag_down_between_operations [OF this start] show "\<not> isGenerating s" .
  }
  {
    assume a: "engine_after_all L history initial = Some s \<and>
      generate L cancel_req prompt maxTokens temperature topP stopStrings s = Some out"
    with flag_down_between_operations [OF _ start] have "\<not> isGenerating s" by blast
    with a show "\<not> isGenerating (engine_after out)"
      using generate_flag [of L cancel_req prompt maxTokens temperature topP stopStrings s out]
      by (cases "isModelLoaded s") auto
  }
  {
    assume a: "engine_after_all L history initial = Some s \<and>
      generateStreaming L J cancel_req prompt maxTokens temperature topP stopStrings s = Some sout"
    with flag_down_between_operations [OF _ start] have "\<not> isGenerating s" by blast
    with a show "\<not> isGenerating (engine_after sout)"
      using generateStreaming_flag
              [of L J cancel_req prompt maxTokens temperature topP stopStrings s sout]
      by (cases "isModelLoaded s") auto
  }
  {
    assume "isModelLoaded s \<and>
      generate L cancel_req prompt maxTokens temperature topP stopStrings s = Some out"
    then show "\<not> isGenerating (engine_after out)" by (auto dest: generate_flag(1))
  }
  {
    assume "isModelLoaded s \<and>
      generateStreaming L J cancel_req prompt maxTokens temperature topP stopStrings s = Some sout"
    then show "\<not> isGenerating (engine_after sout)" by (auto dest: generateStreaming_flag(1))
  }
  {
    assume "\<not> isModelLoaded s \<and>
      generate L cancel_req prompt maxTokens temperature topP stopStrings s = Some out"
    then show "engine_after out = s" by (auto dest: generate_flag(2))
  }
  {
    assume "\<not> isModelLoaded s \<and>
      generateStreaming L J cancel_req prompt maxTokens temperature topP stopStrings s = Some sout"
    then show "engine_after sout = s" by (auto dest: generateStreaming_flag(2))
  }
qed

theorem generating_flag_reset_witness:
  "engine_after_all (script_llama [1, 3, 1] 100) [LoadModel (Some ''model.gguf'') 4] initial =
     Some loaded \<and>
   generate (script_llama [1, 3, 1] 100) never ''Hi'' 2 (4 / 5) (9 / 10) (Some [''!'']) loaded =
     Some budget_run \<and>
   \<not> isGenerating (engine_after budget_run) \<and>
   engine_after_all (script_llama [1, 3, 1] 100)
     [LoadModel (Some ''model.gguf'') 4,
      Generate (cancel_before 1) ''Hi'' 5 (4 / 5) (9 / 10) (Some [''!'']),
      CancelGeneration] initial = Some (engine_after cancelled_run) \<and>
   generateStreaming (script_llama [1, 3, 1] 100) accepting never ''Hi'' 2 (4 / 5) (9 / 10)
     (Some [''!'']) (engine_after cancelled_run) = Some budget_stream \<and>
   isModelLoaded (loaded\<lparr> g_is_generating := True \<rparr>) \<and>
   isGenerating (loaded\<lparr> g_is_generating := True \<rparr>) \<and>
   generate (script_llama [1, 3, 1] 100) (cancel_before 1) ''Hi'' 5 (4 / 5) (9 / 10)
     (Some [''!'']) (loaded\<lparr> g_is_generating := True \<rparr>) = Some cancelled_run \<and>
   \<not> isGenerating (engine_after cancelled_run) \<and>
   generate (script_llama [1, 3, 1] 2) never ''Hi'' 5 (4 / 5) (9 / 10)
     (Some [''!'']) (loaded\<lparr> g_is_generating := True \<rparr>) = Some failed_run \<and>
   \<not> isGenerating (engine_after failed_run) \<and>
   generateStreaming (script_llama [1, 3, 1] 100) accepting never ''Hi'' 2 (4 / 5) (9 / 10)
     (Some [''!'']) (loaded\<lparr> g_is_generating := True \<rparr>) = Some budget_stream \<and>
   \<not> isGenerating (engine_after budget_stream) \<and>
   generateStreaming (script_llama [1, 2, 3] 100) accepting never ''Hi'' 5 (4 / 5) (9 / 10)
     (Some [''!'']) (loaded\<lparr> g_is_generating := True \<rparr>) = Some stopped_stream \<and>
   \<not> isGenerating (engine_after stopped_stream) \<and>
   engine_after_all (script_llama [1, 3, 1] 100) [] initial =
     Some (initial :: (unit, nat) engine) \<and>
   \<not> isModelLoaded (initial :: (unit, nat) engine) \<and>
   map_option engine_after
     (generateStreaming (script_llama [1, 3, 1] 100) accepting never ''Hi'' 2 (4 / 5) (9 / 10)
        (Some [''!'']) initial) = Some initial \<and>
   \<not> isGenerating (initial :: (unit, nat) engine)"
proof -
  let ?up = "loaded\<lparr> g_is_generating := True \<rparr>"
  have ld: "isModelLoaded loaded" and up: "isModelLoaded ?up" "isGenerating ?up"
    by (simp_all add: isModelLoaded_def isGenerating_def loaded_def)
  have r: "engine_after_all (script_llama [1, 3, 1] 100) [LoadModel (Some ''model.gguf'') 4]
             initial = Some loaded"
    by (simp add: load_gives_loaded)
  have r0: "engine_after_all (script_llama [1, 3, 1] 100) [] initial =
              Some (initial :: (unit, nat) engine)"
    by simp
  have absent: "\<not> isModelLoaded (initial :: (unit, nat) engine)"
    by (simp add: isModelLoaded_def initial_def)
  have runs:
    "generate (script_llama [1, 3, 1] 100) (cancel_before 1) ''Hi'' 5 (4 / 5) (9 / 10)
       (Some [''!'']) ?up = Some cancelled_run"
    "generate (script_llama [1, 3, 1] 2) never ''Hi'' 5 (4 / 5) (9 / 10)
       (Some [''!'']) ?up = Some failed_run"
    "generateStreaming (script_llama [1, 3, 1] 100) accepting never ''Hi'' 2 (4 / 5) (9 / 10)
       (Some [''!'']) ?up = Some budget_stream"
    "generateStreaming (script_llama [1, 2, 3] 100) accepting never ''Hi'' 5 (4 / 5) (9 / 10)
       (Some [''!'']) ?up = Some stopped_stream"
    by (simp_all only: entry_flag_overwritten [OF ld] run_cancelled run_failed stream_budget
          stream_stopped)
  obtain sout where sout:
    "generateStreaming (script_llama [1, 3, 1] 100) accepting never ''Hi'' 2 (4 / 5) (9 / 10)
       (Some [''!'']) initial = Some sout"
    by (simp add: generateStreaming_def initial_def)
  note flag = generating_flag_reset
  from flag [where L = "script_llama [1, 3, 1] 100" and s = loaded and cancel_req = never
               and history = "[LoadModel (Some ''model.gguf'') 4]"
               and prompt = "''Hi''" and maxTokens = 2 and temperature = "4 / 5"
               and topP = "9 / 10" and stopStrings = "Some [''!'']" and out = budget_run]
    r run_budget
  have 1: "\<not> isGenerating (engine_after budget_run)" by blast
  from flag [where L = "script_llama [1, 3, 1] 100" and J = accepting
               and s = "engine_after cancelled_run" and cancel_req = never
               and history = "[LoadModel (Some ''model.gguf'') 4,
                               Generate (cancel_before 1) ''Hi'' 5 (4 / 5) (9 / 10) (Some [''!'']),
                               CancelGeneration]"
               and prompt = "''Hi''" and maxTokens = 2 and temperature = "4 / 5"
               and topP = "9 / 10" and stopStrings = "Some [''!'']" and sout = budget_stream]
    history_cancelled stream_after_cancelled
  have 8: "\<not> isGenerating (engine_after budget_stream)" by blast
  from flag [where L = "script_llama [1, 3, 1] 100" and s = ?up and cancel_req = "cancel_before 1"
               and prompt = "''Hi''" and maxTokens = 5 and temperature = "4 / 5"
               and topP = "9 / 10" and stopStrings = "Some [''!'']" and out = cancelled_run]
    up(1) runs(1)
  have 2: "\<not> isGenerating (engine_after cancelled_run)" by blast
  from flag [where L = "script_llama [1, 3, 1] 2" and s = ?up and cancel_req = never
               and prompt = "''Hi''" and maxTokens = 5 and temperature = "4 / 5"
               and topP = "9 / 10" and stopStrings = "Some [''!'']" and out = failed_run]
    up(1) runs(2)
  have 3: "\<not> isGenerating (engine_after failed_run)" by blast
  from flag [where L = "script_llama [1, 3, 1] 100" and J = accepting and s = ?up
               and cancel_req = never and prompt = "''Hi''" and maxTokens = 2
               and temperature = "4 / 5" and topP = "9 / 10" and stopStrings = "Some [''!'']"
               and sout = budget_stream]
    up(1) runs(3)
  have 4: "\<not> isGenerating (engine_after budget_stream)" by blast
  from flag [where L = "script_llama [1, 2, 3] 100" and J = accepting and s = ?up
               and cancel_req = never and prompt = "''Hi''" and maxTokens = 5
               and temperature = "4 / 5" and topP = "9 / 10" and stopStrings = "Some [''!'']"
               and sout = stopped_stream]
    up(1) runs(4)
  have 5: "\<not> isGenerating (engine_after stopped_stream)" by blast
  from flag [where L = "script_llama [1, 3, 1] 100" and J = accepting
               and s = "initial :: (unit, nat) engine" and history = "[]"
               and cancel_req = never and prompt = "''Hi''" and maxTokens = 2
               and temperature = "4 / 5" and topP = "9 / 10" and stopStrings = "Some [''!'']"
               and sout = sout]
    r0 absent sout
  have 6: "engine_after sout = initial" "\<not> isGenerating (initial :: (unit, nat) engine)"
    by blast+
  from 6(1) sout have 7: "map_option engine_after
     (generateStreaming (script_llama [1, 3, 1] 100) accepting never ''Hi'' 2 (4 / 5) (9 / 10)
        (Some [''!'']) initial) = Some initial"
    by simp
  from r run_budget 1 history_cancelled stream_after_cancelled up runs(1) 2 runs(2) 3 runs(3) 4
    runs(4) 5 r0 absent 7 6(2)
  show ?thesis by (intro conjI)
qed

section \<open>Stop strings\<close>

text \<open>
  The scenario of the specification: the model emits \<open>there\<close>, \<open>!\<close>, \<open>more\<close> and the
  stop string is \<open>!\<close>. The buffering call returns \<open>there\<close>; the streaming call delivers
  \<open>there\<close> and nothing else.
\<close>

lemma spec_scenario:
  "map_option text_out
     (generate (script_llama [1, 2, 3] 100) never ''Hello'' 5 (4 / 5) (9 / 10) (Some [''!''])
        loaded) = Some ''there'' \<and>
   map_option delivered
     (generateStreaming (script_llama [1, 2, 3] 100) accepting never ''Hello'' 5 (4 / 5) (9 / 10)
        (Some [''!'']) loaded) = Some [''there'']"
  by (simp add: run_defs)

text \<open>
  In \<open>generate\<close> the search for a stop string starts at
  \<open>result.length() - stop.length() - 1\<close>. When the text is exactly as long as the stop
  string this is \<open>0 - 1\<close> in \<open>size_t\<close>, the largest value, and \<open>find\<close> answers \<open>npos\<close>:
  a text that is the stop string passes the check.
\<close>

lemma stop_check_same_length:
  assumes "length stop = length result" and "length result < 2 ^ 64 - 1"
  shows "stop_check result [stop] = (result, False)"
proof -
  from assms have "unat (size_of result - size_of stop - 1) = 2 ^ 64 - 1"
    by (simp add: size_of_def unsigned_minus_1_eq_mask mask_eq_exp_minus_1)
  with assms show ?thesis
    by (simp add: str_find_def)
qed

text \<open>
  C1. The claim wants every stop string that appears in the accumulated text to end the
  generation, cut off. With the stop string \<open>!\<close> and a model whose first fragment is \<open>!\<close>,
  \<open>generate\<close> returns \<open>!\<close> when the model then ends the generation, and goes on to return
  \<open>!more\<close> when it does not: it ends at the end-of-generation token, not at the stop
  string. \<open>generateStreaming\<close>, which searches the whole text, stops at the first fragment.
\<close>

theorem generate_misses_stop_string:
  "map_option text_out
     (generate (script_llama [2] 100) never ''Hi'' 5 (4 / 5) (9 / 10) (Some [''!'']) loaded) =
     Some ''!'' \<and>
   map_option text_out
     (generate (script_llama [2, 3] 100) never ''Hi'' 5 (4 / 5) (9 / 10) (Some [''!'']) loaded) =
     Some ''!more'' \<and>
   map_option exit_by
     (generate (script_llama [2, 3] 100) never ''Hi'' 5 (4 / 5) (9 / 10) (Some [''!'']) loaded) =
     Some End_of_generation \<and>
   map_option exit_by
     (generateStreaming (script_llama [2, 3] 100) accepting never ''Hi'' 5 (4 / 5) (9 / 10)
        (Some [''!'']) loaded) = Some Stop_string"
  by (simp add: run_defs)

text \<open>
  C5. One pass of the streaming loop body either leaves the sink as it was or hands it one
  non-empty fragment, the one just appended to the accumulated text (the sink reads it up
  to its first zero byte), and then that text passes the stop check. When the text has grown and fails the check, the sink is as
  before, the pass ends in the break for a stop string, and so does the loop. For a whole
  streaming call: the sink has received a list of fragments, each read up to its first
  zero byte and each clear of the stop strings in the part \<open>x\<close> of the accumulated text
  that precedes the fragment completing a match; after a match the text is \<open>x\<close> followed
  by that fragment, which the sink has not received.
\<close>

theorem streaming_suppresses_matching_fragment:
  "((streaming_step L J cancel_req vocab stop_strs i st = Continue st' \<or>
     streaming_step L J cancel_req vocab stop_strs i st = Break e st') \<longrightarrow>
      (sink st' = sink st \<or>
       (\<exists>piece. piece \<noteq> [] \<and> sink st' = sink st @ [c_str piece] \<and>
                 accumulated st' = accumulated st @ piece \<and>
                 \<not> streaming_stop_check (accumulated st') stop_strs)) \<and>
      (accumulated st' \<noteq> accumulated st \<and> streaming_stop_check (accumulated st') stop_strs \<longrightarrow>
         sink st' = sink st \<and>
         streaming_step L J cancel_req vocab stop_strs i st = Break Stop_string st' \<and>
         (i < maxTokens \<longrightarrow>
            streaming_loop L J cancel_req vocab stop_strs maxTokens i st =
              Some (st', Stop_string)))) \<and>
   (generateStreaming L J cancel_req prompt maxTokens temperature topP stopStrings s = Some out \<longrightarrow>
      (\<exists>x frags. delivered out = map c_str frags \<and>
           list_all (clear_of (collect_stop_strings stopStrings) x) frags \<and>
           (exit_by out = Stop_string \<longrightarrow>
              (\<exists>decoded. decoded \<noteq> [] \<and> text_acc out = x @ decoded \<and>
                 streaming_stop_check (text_acc out) (collect_stop_strings stopStrings))) \<and>
           (exit_by out \<noteq> Stop_string \<longrightarrow> text_acc out = x)))"
proof (intro conjI impI)
  assume step: "streaming_step L J cancel_req vocab stop_strs i st = Continue st' \<or>
     streaming_step L J cancel_req vocab stop_strs i st = Break e st'"
  show "sink st' = sink st \<or>
       (\<exists>piece. piece \<noteq> [] \<and> sink st' = sink st @ [c_str piece] \<and>
                 accumulated st' = accumulated st @ piece \<and>
                 \<not> streaming_stop_check (accumulated st') stop_strs)"
    by (cases rule: streaming_step_elim
          [where st = st and cr = cancel_req and i = i and L = L and v = vocab
             and ss = stop_strs and J = J])
       (use step in \<open>auto simp: evaluate_token_eq dest: token_piece_nonempty split: if_splits\<close>)
  assume changed: "accumulated st' \<noteq> accumulated st \<and>
                   streaming_stop_check (accumulated st') stop_strs"
  show "sink st' = sink st"
    by (cases rule: streaming_step_elim
          [where st = st and cr = cancel_req and i = i and L = L and v = vocab
             and ss = stop_strs and J = J])
       (use step changed in \<open>auto simp: evaluate_token_eq split: if_splits\<close>)
  show brk: "streaming_step L J cancel_req vocab stop_strs i st = Break Stop_string st'"
    by (cases rule: streaming_step_elim
          [where st = st and cr = cancel_req and i = i and L = L and v = vocab
             and ss = stop_strs and J = J])
       (use step changed in \<open>auto simp: evaluate_token_eq split: if_splits\<close>)
  assume "i < maxTokens"
  with brk show "streaming_loop L J cancel_req vocab stop_strs maxTokens i st =
              Some (st', Stop_string)"
    by (simp add: streaming_loop.simps)
next
  assume "generateStreaming L J cancel_req prompt maxTokens temperature topP stopStrings s =
            Some out"
  then show "\<exists>x frags. delivered out = map c_str frags \<and>
           list_all (clear_of (collect_stop_strings stopStrings) x) frags \<and>
           (exit_by out = Stop_string \<longrightarrow>
              (\<exists>decoded. decoded \<noteq> [] \<and> text_acc out = x @ decoded \<and>
                 streaming_stop_check (text_acc out) (collect_stop_strings stopStrings))) \<and>
           (exit_by out \<noteq> Stop_string \<longrightarrow> text_acc out = x)"
  proof (cases rule: generateStreaming_cases)
    case (Loop vocab c n written batch c2 st e)
    from streaming_loop_sink [OF Loop(8)] Loop(9) show ?thesis by simp
  qed (auto intro: exI [of _ "[]"])
qed

theorem streaming_suppresses_matching_fragment_witness:
  "streaming_step (script_llama [1, 2, 3] 100) accepting never () [''!''] 1 after_there =
     Break Stop_string (after_there\<lparr> accumulated := ''there!'', sampled := [1, 2] \<rparr>) \<and>
   accumulated (after_there\<lparr> accumulated := ''there!'', sampled := [1, 2] \<rparr>) \<noteq>
     accumulated after_there \<and>
   streaming_stop_check ''there!'' [''!''] \<and>
   sink (after_there\<lparr> accumulated := ''there!'', sampled := [1, 2] \<rparr>) = [''there''] \<and>
   (1 :: int) < 5 \<and>
   streaming_loop (script_llama [1, 2, 3] 100) accepting never () [''!''] 5 1 after_there =
     Some (after_there\<lparr> accumulated := ''there!'', sampled := [1, 2] \<rparr>, Stop_string) \<and>
   generateStreaming (script_llama [1, 2, 3] 100) accepting never ''Hi'' 5 (4 / 5) (9 / 10)
     (Some [''!'']) loaded = Some stopped_stream \<and>
   exit_by stopped_stream = Stop_string \<and>
   delivered stopped_stream = [''there''] \<and>
   (\<exists>x frags. delivered stopped_stream = map c_str frags \<and>
        list_all (clear_of [''!''] x) frags \<and>
        (\<exists>decoded. decoded \<noteq> [] \<and> text_acc stopped_stream = x @ decoded \<and>
                   streaming_stop_check (text_acc stopped_stream) [''!'']))"
proof -
  have step: "streaming_step (script_llama [1, 2, 3] 100) accepting never () [''!''] 1 after_there =
     Break Stop_string (after_there\<lparr> accumulated := ''there!'', sampled := [1, 2] \<rparr>)"
    by (simp add: run_defs after_there_def)
  have match: "streaming_stop_check ''there!'' [''!'']"
    by (simp add: str_rfind_def occurs_at_def)
  from streaming_suppresses_matching_fragment
    [where L = "script_llama [1, 2, 3] 100" and J = accepting and cancel_req = never
       and vocab = "()" and stop_strs = "[''!'']" and i = 1 and st = after_there
       and st' = "after_there\<lparr> accumulated := ''there!'', sampled := [1, 2] \<rparr>"
       and e = Stop_string and maxTokens = 5
       and prompt = "''Hi''" and temperature = "4 / 5" and topP = "9 / 10"
       and stopStrings = "Some [''!'']" and s = loaded and out = stopped_stream]
    step match stream_stopped
  show ?thesis
    by (simp add: after_there_def stopped_stream_def collect_stop_strings_def)
qed

section \<open>Two calls compared\<close>

text \<open>
  No function of the loops reads \<open>llama_sampler_chain_add\<close>, and the chain is built from
  the samplers \<open>top_p\<close>, \<open>temp\<close> and \<open>dist\<close> with seed 42: a library that adds any other
  distribution sampler differently gives the same calls.
\<close>

lemma other_add_fields:
  "llama_tokenize (L\<lparr> llama_sampler_chain_add := add \<rparr>) = llama_tokenize L"
  "llama_memory_clear (L\<lparr> llama_sampler_chain_add := add \<rparr>) = llama_memory_clear L"
  "llama_decode (L\<lparr> llama_sampler_chain_add := add \<rparr>) = llama_decode L"
  "llama_sampler_chain_init (L\<lparr> llama_sampler_chain_add := add \<rparr>) = llama_sampler_chain_init L"
  "llama_sampler_sample (L\<lparr> llama_sampler_chain_add := add \<rparr>) = llama_sampler_sample L"
  "llama_vocab_is_eog (L\<lparr> llama_sampler_chain_add := add \<rparr>) = llama_vocab_is_eog L"
  "llama_token_to_piece (L\<lparr> llama_sampler_chain_add := add \<rparr>) = llama_token_to_piece L"
  by simp_all

lemma generate_step_other_add:
  "generate_step (L\<lparr> llama_sampler_chain_add := add \<rparr>) cr v ss i st = generate_step L cr v ss i st"
  unfolding generate_step_def sample_token_def token_piece_def evaluate_token_def
    other_add_fields ..

lemma streaming_step_other_add:
  "streaming_step (L\<lparr> llama_sampler_chain_add := add \<rparr>) J cr v ss i st =
     streaming_step L J cr v ss i st"
  unfolding streaming_step_def sample_token_def token_piece_def evaluate_token_def
    other_add_fields ..

lemma generate_loop_other_add:
  "generate_loop (L\<lparr> llama_sampler_chain_add := add \<rparr>) cr v ss m i st =
     generate_loop L cr v ss m i st"
proof (induction "nat (m - i)" arbitrary: i st)
  case 0
  then show ?case by (simp add: generate_loop.simps)
next
  case (Suc n)
  from Suc(2) have "n = nat (m - (i + 1))" by linarith
  from Suc(1) [OF this] show ?case
    by (simp add: generate_loop.simps [of _ cr v ss m i st] generate_step_other_add
          split: step.splits)
qed

lemma streaming_loop_other_add:
  "streaming_loop (L\<lparr> llama_sampler_chain_add := add \<rparr>) J cr v ss m i st =
     streaming_loop L J cr v ss m i st"
proof (induction "nat (m - i)" arbitrary: i st)
  case 0
  then show ?case by (simp add: streaming_loop.simps)
next
  case (Suc n)
  from Suc(2) have "n = nat (m - (i + 1))" by linarith
  from Suc(1) [OF this] show ?case
    by (simp add: streaming_loop.simps [of _ J cr v ss m i st] streaming_step_other_add
          split: step.splits)
qed

lemma sampler_chain_other_add:
  assumes "\<forall>chain smp. (\<forall>seed. smp = llama_sampler_init_dist seed \<longrightarrow> seed = 42) \<longrightarrow>
             add chain smp = llama_sampler_chain_add L chain smp"
  shows "sampler_chain (L\<lparr> llama_sampler_chain_add := add \<rparr>) topP temperature =
           sampler_chain L topP temperature"
  using assms by (simp add: sampler_chain_def)

lemma generate_other_add:
  assumes "\<forall>chain smp. (\<forall>seed. smp = llama_sampler_init_dist seed \<longrightarrow> seed = 42) \<longrightarrow>
             add chain smp = llama_sampler_chain_add L chain smp"
  shows "generate (L\<lparr> llama_sampler_chain_add := add \<rparr>) cr prompt m temperature topP ss s =
           generate L cr prompt m temperature topP ss s"
  unfolding generate_def other_add_fields sampler_chain_other_add [OF assms]
    generate_loop_other_add ..

lemma generateStreaming_other_add:
  assumes "\<forall>chain smp. (\<forall>seed. smp = llama_sampler_init_dist seed \<longrightarrow> seed = 42) \<longrightarrow>
             add chain smp = llama_sampler_chain_add L chain smp"
  shows "generateStreaming (L\<lparr> llama_sampler_chain_add := add \<rparr>) J cr prompt m temperature topP ss s =
           generateStreaming L J cr prompt m temperature topP ss s"
  unfolding generateStreaming_def other_add_fields sampler_chain_other_add [OF assms]
    streaming_loop_other_add ..

text \<open>
  Two runs of the buffering loop from one state, under different cancel requests, draw the
  same tokens as far as both go, and end in the same state when they draw equally many.
\<close>

lemma generate_step_undisturbed:
  "\<not> cancel st \<Longrightarrow> \<not> cr (nat i) \<Longrightarrow>
     generate_step L cr v ss i st = generate_step L (\<lambda>k. False) v ss i st"
  by (simp add: generate_step_def poll_cancel_def)

lemma generate_step_break_draws:
  assumes "generate_step L cr v ss i st = Break e a" and "\<not> cancel st" and "\<not> cr (nat i)"
  shows "\<exists>t. sampled a = sampled st @ [t]"
  by (cases rule: generate_step_elim [where st = st and cr = cr and i = i and L = L and v = v and ss = ss])
     (use assms in \<open>auto simp: evaluate_token_eq split: if_splits\<close>)

lemma generate_step_continue_draws:
  assumes "generate_step L cr v ss i st = Continue a"
  shows "(\<exists>t. sampled a = sampled st @ [t]) \<and> cancel a = cancel st"
  by (cases rule: generate_step_elim [where st = st and cr = cr and i = i and L = L and v = v and ss = ss])
     (use assms in \<open>auto simp: evaluate_token_eq split: if_splits\<close>)

lemma generate_loop_cancelled_at_once:
  "i < m \<Longrightarrow> cr (nat i) \<Longrightarrow>
     generate_loop L cr v ss m i st = Some (st\<lparr> cancel := True \<rparr>, Cancelled)"
  by (simp add: generate_loop.simps generate_step_def poll_cancel_def)

lemma generate_loop_draws:
  assumes "generate_loop L cr v ss m i st = Some (st', e)"
    and "i < m" and "\<not> cancel st" and "\<not> cr (nat i)"
  shows "\<exists>t toks. sampled st' = sampled st @ t # toks"
proof (cases "generate_step L cr v ss i st")
  case (Break e2 a)
  with assms have "st' = a" by (simp add: generate_loop.simps)
  with generate_step_break_draws [OF Break assms(3,4)] show ?thesis by auto
next
  case (Continue a)
  with assms have "generate_loop L cr v ss m (i + 1) a = Some (st', e)"
    by (simp add: generate_loop.simps)
  from generate_loop_history_if [OF this] obtain toks where "sampled st' = sampled a @ toks"
    by blast
  with generate_step_continue_draws [OF Continue] show ?thesis by auto
next
  case Undefined
  with assms show ?thesis by (simp add: generate_loop.simps)
qed

lemma generate_loop_two_runs:
  assumes "generate_loop L cr1 v ss m i st = Some (st1, e1)"
    and "generate_loop L cr2 v ss m i st = Some (st2, e2)"
    and "\<not> cancel st"
  shows "(prefix (sampled st1) (sampled st2) \<or> prefix (sampled st2) (sampled st1)) \<and>
         (length (sampled st1) = length (sampled st2) \<longrightarrow> st1 = st2 \<and> e1 = e2)"
  using assms
proof (induction "nat (m - i)" arbitrary: i st)
  case 0
  then show ?case by (simp add: generate_loop.simps)
next
  case (Suc n)
  then have lt: "i < m" by linarith
  note run1 = Suc.prems(1) and run2 = Suc.prems(2) and nc = Suc.prems(3)
  consider (both) "cr1 (nat i)" "cr2 (nat i)" | (first) "cr1 (nat i)" "\<not> cr2 (nat i)"
    | (second) "\<not> cr1 (nat i)" "cr2 (nat i)" | (none) "\<not> cr1 (nat i)" "\<not> cr2 (nat i)"
    by blast
  then show ?case
  proof cases
    case both
    with run1 run2 lt show ?thesis by (simp add: generate_loop_cancelled_at_once)
  next
    case first
    with run1 lt have "st1 = st\<lparr> cancel := True \<rparr>" by (simp add: generate_loop_cancelled_at_once)
    moreover from generate_loop_draws [OF run2 lt nc first(2)]
    obtain t toks where "sampled st2 = sampled st @ t # toks" by blast
    ultimately show ?thesis by simp
  next
    case second
    with run2 lt have "st2 = st\<lparr> cancel := True \<rparr>" by (simp add: generate_loop_cancelled_at_once)
    moreover from generate_loop_draws [OF run1 lt nc second(1)]
    obtain t toks where "sampled st1 = sampled st @ t # toks" by blast
    ultimately show ?thesis by simp
  next
    case none
    with nc have same: "generate_step L cr2 v ss i st = generate_step L cr1 v ss i st"
      by (simp add: generate_step_undisturbed [of st cr1] generate_step_undisturbed [of st cr2])
    show ?thesis
    proof (cases "generate_step L cr1 v ss i st")
      case (Break e a)
      with run1 run2 lt same show ?thesis by (simp add: generate_loop.simps)
    next
      case (Continue a)
      with run1 run2 lt same have rest: "generate_loop L cr1 v ss m (i + 1) a = Some (st1, e1)"
        "generate_loop L cr2 v ss m (i + 1) a = Some (st2, e2)"
        by (simp_all add: generate_loop.simps)
      from generate_step_continue_draws [OF Continue] nc have "\<not> cancel a" by simp
      moreover from Suc(2) have "n = nat (m - (i + 1))" by linarith
      ultimately show ?thesis using Suc(1) rest by blast
    next
      case Undefined
      with run1 lt show ?thesis by (simp add: generate_loop.simps)
    qed
  qed
qed

lemma generate_two_runs:
  assumes "generate L cr1 prompt m temperature topP ss s = Some out1"
    and "generate L cr2 prompt m temperature topP ss s = Some out2"
  shows "(prefix (tokens_sampled out1) (tokens_sampled out2) \<or>
          prefix (tokens_sampled out2) (tokens_sampled out1)) \<and>
         (length (tokens_sampled out1) = length (tokens_sampled out2) \<longrightarrow> out1 = out2)"
  using assms(1)
proof (cases rule: generate_cases)
  case Absent
  with assms(2) show ?thesis
    by (cases rule: generate_cases) (simp_all add: isModelLoaded_def)
next
  case (Tokenize vocab c n written)
  with assms(2) show ?thesis
    by (cases rule: generate_cases) (simp_all add: isModelLoaded_def)
next
  case (Prompt vocab c n written batch rc c2)
  with assms(2) show ?thesis
    by (cases rule: generate_cases) (simp_all add: isModelLoaded_def)
next
  case one: (Loop vocab c n written batch c2 st1 e1)
  from assms(2) show ?thesis
  proof (cases rule: generate_cases)
    case (Loop vocab' c' n' written' batch' c2' st2 e2)
    with one have run2: "generate_loop L cr2 vocab (collect_stop_strings ss) m 0
         \<lparr> ctx = c2, smpl = sampler_chain L topP temperature, accumulated = [], n_cur = n,
           cancel = False, sampled = [], evaluated = [batch] \<rparr> = Some (st2, e2)"
      by simp
    from generate_loop_two_runs [OF one(7) run2] one(8) Loop(8) show ?thesis
      by auto
  qed (use one in \<open>simp_all add: isModelLoaded_def\<close>)
qed

lemma generate_same_inputs:
  assumes "g_model s1 = g_model s2"
    and "map_option (llama_memory_clear L) (g_ctx s1) = map_option (llama_memory_clear L) (g_ctx s2)"
  shows "map_option (\<lambda>out. (exit_by out, tokens_sampled out, batches_evaluated out, text_acc out, text_out out))
             (generate L cr prompt m temperature topP ss s1) =
         map_option (\<lambda>out. (exit_by out, tokens_sampled out, batches_evaluated out, text_acc out, text_out out))
             (generate L cr prompt m temperature topP ss s2)"
    using assms
    by (cases "g_model s2"; cases "g_ctx s1"; cases "g_ctx s2")
       (simp_all add: generate_def Let_def split: prod.splits option.splits)

lemma generateStreaming_same_inputs:
  assumes "g_model s1 = g_model s2"
    and "map_option (llama_memory_clear L) (g_ctx s1) = map_option (llama_memory_clear L) (g_ctx s2)"
  shows "map_option (\<lambda>out. (exit_by out, tokens_sampled out, batches_evaluated out, text_acc out, delivered out))
             (generateStreaming L J cr prompt m temperature topP ss s1) =
         map_option (\<lambda>out. (exit_by out, tokens_sampled out, batches_evaluated out, text_acc out, delivered out))
             (generateStreaming L J cr prompt m temperature topP ss s2)"
    using assms
    by (cases "g_model s2"; cases "g_ctx s1"; cases "g_ctx s2")
       (simp_all add: generateStreaming_def Let_def split: prod.splits option.splits)

text \<open>
  The streaming loop never cuts its text: it is the pieces of the tokens sampled, the
  end-of-generation token apart. Two runs from states that differ in the sink at most, with
  different sinks and cancel requests, draw the same tokens as far as both go.
\<close>

lemma streaming_loop_cancelled_at_once:
  "i < m \<Longrightarrow> cr (nat i) \<Longrightarrow>
     streaming_loop L J cr v ss m i st = Some (st\<lparr> cancel := True \<rparr>, Cancelled)"
  by (simp add: streaming_loop.simps streaming_step_def poll_cancel_def)

lemma streaming_step_break_draws:
  assumes "streaming_step L J cr v ss i st = Break e a" and "\<not> cancel st" and "\<not> cr (nat i)"
  shows "sampled a = sampled st @ [fst (llama_sampler_sample L (smpl st) (ctx st))]"
  by (cases rule: streaming_step_elim
        [where st = st and cr = cr and i = i and L = L and v = v and ss = ss and J = J])
     (use assms in \<open>auto simp: evaluate_token_eq split: if_splits\<close>)

lemma streaming_step_continue_draws:
  assumes "streaming_step L J cr v ss i st = Continue a"
  shows "sampled a = sampled st @ [fst (llama_sampler_sample L (smpl st) (ctx st))] \<and>
         cancel a = cancel st \<and> \<not> cancel st \<and> \<not> cr (nat i)"
  by (cases rule: streaming_step_elim
        [where st = st and cr = cr and i = i and L = L and v = v and ss = ss and J = J])
     (use assms in \<open>auto simp: evaluate_token_eq split: if_splits\<close>)

lemma streaming_loop_extends:
  assumes "streaming_loop L J cr v ss m i st = Some (st', e)"
  shows "\<exists>toks. sampled st' = sampled st @ toks \<and>
           accumulated st' =
             accumulated st @ pieces L v (filter (\<lambda>t. \<not> llama_vocab_is_eog L v t) toks)"
proof -
  let ?R = "\<lambda>(i::int) st st' (e::exit_path). \<exists>toks. sampled st' = sampled st @ toks \<and>
           accumulated st' =
             accumulated st @ pieces L v (filter (\<lambda>t. \<not> llama_vocab_is_eog L v t) toks)"
  have "?R i st st' e"
  proof (rule streaming_loop_rule [where R = ?R, OF assms], goal_cases)
    case (1 i st)
    show ?case by (intro exI [of _ "[]"]) (simp add: pieces_def)
  next
    case step: (2 i st st2 e)
    show ?case
    proof (cases rule: streaming_step_elim
        [where st = st and cr = cr and i = i and L = L and v = v and ss = ss and J = J])
      case Cancel
      with step show ?thesis by (intro exI [of _ "[]"]) (auto simp: pieces_def)
    next
      case (Eog t s')
      with step show ?thesis by (intro exI [of _ "[t]"]) (auto simp: pieces_def)
    next
      case (NoPiece t s')
      with step show ?thesis
        by (intro exI [of _ "[t]"]) (auto simp: evaluate_token_eq pieces_def split: if_splits)
    next
      case (Match t s' decoded)
      with step show ?thesis by (intro exI [of _ "[t]"]) (auto simp: pieces_def)
    next
      case (Dropped t s' decoded)
      with step show ?thesis
        by (intro exI [of _ "[t]"]) (auto simp: evaluate_token_eq pieces_def split: if_splits)
    next
      case (Thrown t s' decoded)
      with step show ?thesis by (intro exI [of _ "[t]"]) (auto simp: pieces_def)
    next
      case (Delivered t s' decoded)
      with step show ?thesis
        by (intro exI [of _ "[t]"]) (auto simp: evaluate_token_eq pieces_def split: if_splits)
    qed
  next
    case step: (3 i st st2 st3 e)
    from step(3) obtain toks where rest: "sampled st3 = sampled st2 @ toks"
      "accumulated st3 =
         accumulated st2 @ pieces L v (filter (\<lambda>t. \<not> llama_vocab_is_eog L v t) toks)"
      by blast
    show ?case
    proof (cases rule: streaming_step_elim
        [where st = st and cr = cr and i = i and L = L and v = v and ss = ss and J = J])
      case (NoPiece t s')
      with step(2) have "sampled st2 = sampled st @ [t]" "accumulated st2 = accumulated st"
        by (auto simp: evaluate_token_eq split: if_splits)
      with rest NoPiece show ?thesis
        by (intro exI [of _ "t # toks"]) (simp add: pieces_def)
    next
      case (Dropped t s' decoded)
      with step(2) have "sampled st2 = sampled st @ [t]"
        "accumulated st2 = accumulated st @ decoded"
        by (auto simp: evaluate_token_eq split: if_splits)
      with rest Dropped show ?thesis
        by (intro exI [of _ "t # toks"]) (simp add: pieces_def)
    next
      case (Delivered t s' decoded)
      with step(2) have "sampled st2 = sampled st @ [t]"
        "accumulated st2 = accumulated st @ decoded"
        by (auto simp: evaluate_token_eq split: if_splits)
      with rest Delivered show ?thesis
        by (intro exI [of _ "t # toks"]) (simp add: pieces_def)
    qed (use step(2) in auto)
  qed
  then show ?thesis .
qed

lemma streaming_loop_draws:
  assumes "streaming_loop L J cr v ss m i st = Some (st', e)"
    and "i < m" and "\<not> cancel st" and "\<not> cr (nat i)"
  shows "\<exists>toks. sampled st' = sampled st @ fst (llama_sampler_sample L (smpl st) (ctx st)) # toks"
proof (cases "streaming_step L J cr v ss i st")
  case (Break e2 a)
  with assms have "st' = a" by (simp add: streaming_loop.simps)
  with streaming_step_break_draws [OF Break assms(3,4)] show ?thesis by auto
next
  case (Continue a)
  with assms have "streaming_loop L J cr v ss m (i + 1) a = Some (st', e)"
    by (simp add: streaming_loop.simps)
  from streaming_loop_extends [OF this] obtain toks where "sampled st' = sampled a @ toks"
    by blast
  with streaming_step_continue_draws [OF Continue] show ?thesis by auto
next
  case Undefined
  with assms show ?thesis by (simp add: streaming_loop.simps)
qed

lemma streaming_steps_agree:
  assumes "streaming_step L J1 cr1 v ss i st = Continue a"
    and "streaming_step L J2 cr2 v ss i (st\<lparr> sink := snk \<rparr>) = Continue b"
  shows "b = a\<lparr> sink := sink b \<rparr>"
proof (cases rule: streaming_step_elim
        [where st = st and cr = cr1 and i = i and L = L and v = v and ss = ss and J = J1])
  case (NoPiece t s')
  with assms show ?thesis
    by (cases rule: streaming_step_elim
          [where st = "st\<lparr> sink := snk \<rparr>" and cr = cr2 and i = i and L = L and v = v
             and ss = ss and J = J2])
       (auto simp: evaluate_token_eq split: if_splits)
next
  case (Dropped t s' decoded)
  with assms show ?thesis
    by (cases rule: streaming_step_elim
          [where st = "st\<lparr> sink := snk \<rparr>" and cr = cr2 and i = i and L = L and v = v
             and ss = ss and J = J2])
       (auto simp: evaluate_token_eq split: if_splits)
next
  case (Delivered t s' decoded)
  with assms show ?thesis
    by (cases rule: streaming_step_elim
          [where st = "st\<lparr> sink := snk \<rparr>" and cr = cr2 and i = i and L = L and v = v
             and ss = ss and J = J2])
       (auto simp: evaluate_token_eq split: if_splits)
qed (use assms(1) in auto)

lemma streaming_loop_two_runs:
  assumes "streaming_loop L J1 cr1 v ss m i st = Some (st1, e1)"
    and "streaming_loop L J2 cr2 v ss m i (st\<lparr> sink := snk \<rparr>) = Some (st2, e2)"
    and "\<not> cancel st"
  shows "prefix (sampled st1) (sampled st2) \<or> prefix (sampled st2) (sampled st1)"
  using assms
proof (induction "nat (m - i)" arbitrary: i st snk)
  case 0
  then show ?case by (auto simp: streaming_loop.simps)
next
  case (Suc n)
  then have lt: "i < m" by linarith
  note run1 = Suc.prems(1) and run2 = Suc.prems(2) and nc = Suc.prems(3)
  let ?t = "fst (llama_sampler_sample L (smpl st) (ctx st))"
  from streaming_loop_extends [OF run1] streaming_loop_extends [OF run2]
  obtain toks1 toks2 where ext: "sampled st1 = sampled st @ toks1" "sampled st2 = sampled st @ toks2"
    by auto
  consider (first) "cr1 (nat i)" | (second) "cr2 (nat i)"
    | (none) "\<not> cr1 (nat i)" "\<not> cr2 (nat i)"
    by blast
  then show ?case
  proof cases
    case first
    with run1 lt have "st1 = st\<lparr> cancel := True \<rparr>" by (simp add: streaming_loop_cancelled_at_once)
    with ext show ?thesis by simp
  next
    case second
    with run2 lt have "st2 = st\<lparr> sink := snk, cancel := True \<rparr>"
      by (simp add: streaming_loop_cancelled_at_once)
    with ext show ?thesis by simp
  next
    case none
    from streaming_loop_draws [OF run1 lt nc none(1)]
    obtain r1 where d1: "sampled st1 = sampled st @ ?t # r1" by blast
    from nc have nc2: "\<not> cancel (st\<lparr> sink := snk \<rparr>)" by simp
    from streaming_loop_draws [OF run2 lt nc2 none(2)]
    obtain r2 where d2: "sampled st2 = sampled st @ ?t # r2" by auto
    show ?thesis
    proof (cases "streaming_step L J1 cr1 v ss i st")
      case (Break e a)
      with run1 lt have "st1 = a" by (simp add: streaming_loop.simps)
      with streaming_step_break_draws [OF Break nc none(1)] d2 show ?thesis by simp
    next
      case c1: (Continue a)
      show ?thesis
      proof (cases "streaming_step L J2 cr2 v ss i (st\<lparr> sink := snk \<rparr>)")
        case (Break e b)
        with run2 lt have "st2 = b" by (simp add: streaming_loop.simps)
        with streaming_step_break_draws [OF Break nc2 none(2)] d1 show ?thesis by simp
      next
        case c2: (Continue b)
        from streaming_steps_agree [OF c1 c2] have b: "b = a\<lparr> sink := sink b \<rparr>" .
        from c1 run1 lt have r1: "streaming_loop L J1 cr1 v ss m (i + 1) a = Some (st1, e1)"
          by (simp add: streaming_loop.simps)
        from c2 run2 lt have "streaming_loop L J2 cr2 v ss m (i + 1) b = Some (st2, e2)"
          by (simp add: streaming_loop.simps)
        with b have r2: "streaming_loop L J2 cr2 v ss m (i + 1) (a\<lparr> sink := sink b \<rparr>) =
                           Some (st2, e2)"
          by simp
        from streaming_step_continue_draws [OF c1] nc have "\<not> cancel a" by simp
        moreover from Suc(2) have "n = nat (m - (i + 1))" by linarith
        ultimately show ?thesis using Suc(1) r1 r2 by blast
      next
        case Undefined
        with run2 lt show ?thesis by (simp add: streaming_loop.simps)
      qed
    next
      case Undefined
      with run1 lt show ?thesis by (simp add: streaming_loop.simps)
    qed
  qed
qed

lemma generateStreaming_two_runs:
  assumes "generateStreaming L J1 cr1 prompt m temperature topP ss s = Some out1"
    and "generateStreaming L J2 cr2 prompt m temperature topP ss s = Some out2"
  shows "prefix (tokens_sampled out1) (tokens_sampled out2) \<or>
         prefix (tokens_sampled out2) (tokens_sampled out1)"
  using assms(1)
proof (cases rule: generateStreaming_cases)
  case one: (Loop vocab c n written batch c2 st1 e1)
  from assms(2) show ?thesis
  proof (cases rule: generateStreaming_cases)
    case (Loop vocab' c' n' written' batch' c2' st2 e2)
    let ?st = "\<lparr> ctx = c2, smpl = sampler_chain L topP temperature, accumulated = [], n_cur = n,
           cancel = False, sampled = [], evaluated = [batch], sink = [] \<rparr>"
    from Loop one have run2: "streaming_loop L J2 cr2 vocab (collect_stop_strings ss) m 0
         (?st\<lparr> sink := [] \<rparr>) = Some (st2, e2)"
      by simp
    from streaming_loop_two_runs [OF one(8) run2] one(9) Loop(9) show ?thesis
      by simp
  qed simp_all
qed simp_all

lemma generateStreaming_text:
  assumes "generateStreaming L J cr prompt m temperature topP ss s = Some out"
    and "g_model s = Some vocab"
  shows "text_acc out =
           pieces L vocab (filter (\<lambda>t. \<not> llama_vocab_is_eog L vocab t) (tokens_sampled out))"
  using assms(1)
proof (cases rule: generateStreaming_cases)
  case (Loop vocab' c n written batch c2 st e)
  from streaming_loop_extends [OF Loop(8)] Loop assms(2) show ?thesis by auto
qed (simp_all add: pieces_def)

section \<open>Determinism\<close>

text \<open>
  C3. The categorical draw is seeded with the constant 42 in both variants, so nothing but
  the arguments, the model and the cleared context enters the sampling. Two calls are
  compared that have the same model, contexts that are equal once cleared, and the same
  prompt, budget, sampling parameters and stop strings; the second may run on a library
  that builds every distribution sampler with another seed differently, from another engine
  state, under other cancel requests and with another sink. The tokens they sample agree as
  far as both calls go: one sequence is a prefix of the other. When they sample equally
  many tokens, and in particular when no cancel request comes during either call (and, for
  the streaming variant, the sink is the same), the sampled tokens and the text are
  identical; so are the way out and the batches evaluated for the buffering variant, and,
  with the same sink and no cancel request, the fragments delivered by the streaming one.
\<close>

theorem generation_deterministic:
  assumes "g_model s1 = g_model s2"
    and "map_option (llama_memory_clear L) (g_ctx s1) = map_option (llama_memory_clear L) (g_ctx s2)"
    and "\<forall>chain smp. (\<forall>seed. smp = llama_sampler_init_dist seed \<longrightarrow> seed = 42) \<longrightarrow>
           add chain smp = llama_sampler_chain_add L chain smp"
  shows "(generate L cr1 prompt maxTokens temperature topP stopStrings s1 = Some out1 \<and>
          generate (L\<lparr> llama_sampler_chain_add := add \<rparr>) cr2 prompt maxTokens temperature topP
            stopStrings s2 = Some out2 \<longrightarrow>
            (prefix (tokens_sampled out1) (tokens_sampled out2) \<or>
             prefix (tokens_sampled out2) (tokens_sampled out1)) \<and>
            (length (tokens_sampled out1) = length (tokens_sampled out2) \<or>
             (\<forall>k. \<not> cr1 k \<and> \<not> cr2 k) \<longrightarrow>
               tokens_sampled out1 = tokens_sampled out2 \<and> text_out out1 = text_out out2 \<and>
               text_acc out1 = text_acc out2 \<and> exit_by out1 = exit_by out2 \<and>
               batches_evaluated out1 = batches_evaluated out2)) \<and>
         (generateStreaming L J1 cr1 prompt maxTokens temperature topP stopStrings s1 = Some sout1 \<and>
          generateStreaming (L\<lparr> llama_sampler_chain_add := add \<rparr>) J2 cr2 prompt maxTokens
            temperature topP stopStrings s2 = Some sout2 \<longrightarrow>
            (prefix (tokens_sampled sout1) (tokens_sampled sout2) \<or>
             prefix (tokens_sampled sout2) (tokens_sampled sout1)) \<and>
            (length (tokens_sampled sout1) = length (tokens_sampled sout2) \<or>
             J1 = J2 \<and> (\<forall>k. \<not> cr1 k \<and> \<not> cr2 k) \<longrightarrow>
               tokens_sampled sout1 = tokens_sampled sout2 \<and> text_acc sout1 = text_acc sout2) \<and>
            (J1 = J2 \<and> (\<forall>k. \<not> cr1 k \<and> \<not> cr2 k) \<longrightarrow>
               delivered sout1 = delivered sout2 \<and> exit_by sout1 = exit_by sout2 \<and>
               batches_evaluated sout1 = batches_evaluated sout2))"
proof (intro conjI impI)
  assume runs: "generate L cr1 prompt maxTokens temperature topP stopStrings s1 = Some out1 \<and>
          generate (L\<lparr> llama_sampler_chain_add := add \<rparr>) cr2 prompt maxTokens temperature topP
            stopStrings s2 = Some out2"
  then have run1: "generate L cr1 prompt maxTokens temperature topP stopStrings s1 = Some out1"
    and run2: "generate L cr2 prompt maxTokens temperature topP stopStrings s2 = Some out2"
    by (simp_all add: generate_other_add [OF assms(3)])
  from generate_same_inputs [OF assms(1,2), of cr2 prompt maxTokens temperature topP stopStrings]
    run2
  obtain out2' where moved:
    "generate L cr2 prompt maxTokens temperature topP stopStrings s1 = Some out2'"
    "exit_by out2' = exit_by out2" "tokens_sampled out2' = tokens_sampled out2"
    "batches_evaluated out2' = batches_evaluated out2" "text_acc out2' = text_acc out2"
    "text_out out2' = text_out out2"
    by auto
  note two = generate_two_runs [OF run1 moved(1)]
  from two moved show "prefix (tokens_sampled out1) (tokens_sampled out2) \<or>
             prefix (tokens_sampled out2) (tokens_sampled out1)"
    by simp
  assume "length (tokens_sampled out1) = length (tokens_sampled out2) \<or>
             (\<forall>k. \<not> cr1 k \<and> \<not> cr2 k)"
  then have "out1 = out2'"
  proof
    assume "length (tokens_sampled out1) = length (tokens_sampled out2)"
    with two moved show ?thesis by simp
  next
    assume "\<forall>k. \<not> cr1 k \<and> \<not> cr2 k"
    then have "cr1 = cr2" by auto
    with run1 moved(1) show ?thesis by simp
  qed
  with moved show "tokens_sampled out1 = tokens_sampled out2"
    and "text_out out1 = text_out out2" and "text_acc out1 = text_acc out2"
    and "exit_by out1 = exit_by out2" and "batches_evaluated out1 = batches_evaluated out2"
    by simp_all
next
  assume runs: "generateStreaming L J1 cr1 prompt maxTokens temperature topP stopStrings s1 =
            Some sout1 \<and>
          generateStreaming (L\<lparr> llama_sampler_chain_add := add \<rparr>) J2 cr2 prompt maxTokens
            temperature topP stopStrings s2 = Some sout2"
  then have run1: "generateStreaming L J1 cr1 prompt maxTokens temperature topP stopStrings s1 =
            Some sout1"
    and run2: "generateStreaming L J2 cr2 prompt maxTokens temperature topP stopStrings s2 =
            Some sout2"
    by (simp_all add: generateStreaming_other_add [OF assms(3)])
  from generateStreaming_same_inputs
         [OF assms(1,2), of J2 cr2 prompt maxTokens temperature topP stopStrings] run2
  obtain sout2' where moved:
    "generateStreaming L J2 cr2 prompt maxTokens temperature topP stopStrings s1 = Some sout2'"
    "exit_by sout2' = exit_by sout2" "tokens_sampled sout2' = tokens_sampled sout2"
    "batches_evaluated sout2' = batches_evaluated sout2" "text_acc sout2' = text_acc sout2"
    "delivered sout2' = delivered sout2"
    by auto
  note two = generateStreaming_two_runs [OF run1 moved(1)]
  from two moved show comparable: "prefix (tokens_sampled sout1) (tokens_sampled sout2) \<or>
             prefix (tokens_sampled sout2) (tokens_sampled sout1)"
    by simp
  have same: "sout1 = sout2'" if "J1 = J2 \<and> (\<forall>k. \<not> cr1 k \<and> \<not> cr2 k)"
  proof -
    from that have "cr1 = cr2" "J1 = J2" by auto
    with run1 moved(1) show ?thesis by simp
  qed
  {
    assume "length (tokens_sampled sout1) = length (tokens_sampled sout2) \<or>
             J1 = J2 \<and> (\<forall>k. \<not> cr1 k \<and> \<not> cr2 k)"
    then have toks: "tokens_sampled sout1 = tokens_sampled sout2"
    proof
      assume "length (tokens_sampled sout1) = length (tokens_sampled sout2)"
      with comparable show ?thesis by (auto simp: prefix_def)
    next
      assume "J1 = J2 \<and> (\<forall>k. \<not> cr1 k \<and> \<not> cr2 k)"
      with same moved show ?thesis by simp
    qed
    then show "tokens_sampled sout1 = tokens_sampled sout2" .
    show "text_acc sout1 = text_acc sout2"
    proof (cases "g_model s1")
      case None
      with run1 moved(1) have "text_acc sout1 = []" "text_acc sout2' = []"
        by (auto simp: generateStreaming_def)
      with moved show ?thesis by simp
    next
      case (Some vocab)
      from generateStreaming_text [OF run1 Some] generateStreaming_text [OF moved(1) Some]
        toks moved
      show ?thesis by simp
    qed
  }
  assume "J1 = J2 \<and> (\<forall>k. \<not> cr1 k \<and> \<not> cr2 k)"
  with same moved show "delivered sout1 = delivered sout2" and "exit_by sout1 = exit_by sout2"
    and "batches_evaluated sout1 = batches_evaluated sout2"
    by simp_all
qed

theorem generation_deterministic_witness:
  "g_model loaded = g_model used \<and>
   map_option (llama_memory_clear (seeded_llama [1, 3, 1] 100)) (g_ctx loaded) =
     map_option (llama_memory_clear (seeded_llama [1, 3, 1] 100)) (g_ctx used) \<and>
   g_ctx loaded \<noteq> g_ctx used \<and>
   other_seeds [] (llama_sampler_init_dist 7) \<noteq>
     llama_sampler_chain_add (seeded_llama [1, 3, 1] 100) [] (llama_sampler_init_dist 7) \<and>
   llama_sampler_sample (seeded_llama [1, 3, 1] 100)
     (llama_sampler_chain_add (seeded_llama [1, 3, 1] 100) [] (llama_sampler_init_dist 42)) 1 =
     (1, [llama_sampler_init_dist 42]) \<and>
   llama_sampler_sample (seeded_llama [1, 3, 1] 100)
     (llama_sampler_chain_add (seeded_llama [1, 3, 1] 100) [] (llama_sampler_init_dist 7)) 1 =
     (0, [llama_sampler_init_dist 7]) \<and>
   generate (seeded_llama [1, 3, 1] 100) (cancel_before 1) ''Hi'' 5 (4 / 5) (9 / 10)
     (Some [''!'']) loaded = Some cancelled_run \<and>
   generate ((seeded_llama [1, 3, 1] 100)\<lparr> llama_sampler_chain_add := other_seeds \<rparr>) never
     ''Hi'' 5 (4 / 5) (9 / 10) (Some [''!'']) used = Some full_run \<and>
   tokens_sampled cancelled_run = [1] \<and> tokens_sampled full_run = [1, 3, 1, 0] \<and>
   (prefix (tokens_sampled cancelled_run) (tokens_sampled full_run) \<or>
    prefix (tokens_sampled full_run) (tokens_sampled cancelled_run)) \<and>
   generate (seeded_llama [1, 3, 1] 100) never ''Hi'' 2 (4 / 5) (9 / 10) (Some [''!'']) loaded =
     Some budget_run \<and>
   generate ((seeded_llama [1, 3, 1] 100)\<lparr> llama_sampler_chain_add := other_seeds \<rparr>) never
     ''Hi'' 2 (4 / 5) (9 / 10) (Some [''!'']) used = Some used_budget_run \<and>
   tokens_sampled budget_run = tokens_sampled used_budget_run \<and>
   text_out budget_run = text_out used_budget_run \<and>
   exit_by budget_run = exit_by used_budget_run \<and>
   generateStreaming (seeded_llama [1, 3, 1] 100) accepting never ''Hi'' 2 (4 / 5) (9 / 10)
     (Some [''!'']) loaded = Some budget_stream \<and>
   generateStreaming ((seeded_llama [1, 3, 1] 100)\<lparr> llama_sampler_chain_add := other_seeds \<rparr>)
     refusing never ''Hi'' 2 (4 / 5) (9 / 10) (Some [''!'']) used = Some refused_stream \<and>
   tokens_sampled budget_stream = [1, 3] \<and> tokens_sampled refused_stream = [1] \<and>
   (prefix (tokens_sampled budget_stream) (tokens_sampled refused_stream) \<or>
    prefix (tokens_sampled refused_stream) (tokens_sampled budget_stream))"
proof -
  have same: "g_model loaded = g_model used"
    "map_option (llama_memory_clear (seeded_llama [1, 3, 1] 100)) (g_ctx loaded) =
     map_option (llama_memory_clear (seeded_llama [1, 3, 1] 100)) (g_ctx used)"
    and differ: "g_ctx loaded \<noteq> g_ctx used"
    by (simp_all add: used_def loaded_def script_llama_def seeded_llama_def)
  have seeded: "\<forall>chain smp. (\<forall>seed. smp = llama_sampler_init_dist seed \<longrightarrow> seed = 42) \<longrightarrow>
           other_seeds chain smp = llama_sampler_chain_add (seeded_llama [1, 3, 1] 100) chain smp"
    by (auto simp: other_seeds_def script_llama_def seeded_llama_def split: llama_sampler.splits)
  have unseeded: "other_seeds [] (llama_sampler_init_dist 7) \<noteq>
     llama_sampler_chain_add (seeded_llama [1, 3, 1] 100) [] (llama_sampler_init_dist 7)"
    by (simp add: other_seeds_def script_llama_def seeded_llama_def)
  have matters:
    "llama_sampler_sample (seeded_llama [1, 3, 1] 100)
       (llama_sampler_chain_add (seeded_llama [1, 3, 1] 100) [] (llama_sampler_init_dist 42)) 1 =
       (1, [llama_sampler_init_dist 42])"
    "llama_sampler_sample (seeded_llama [1, 3, 1] 100)
       (llama_sampler_chain_add (seeded_llama [1, 3, 1] 100) [] (llama_sampler_init_dist 7)) 1 =
       (0, [llama_sampler_init_dist 7])"
    by (simp_all add: seeded_llama_def script_llama_def)
  have toks: "tokens_sampled cancelled_run = [1]" "tokens_sampled full_run = [1, 3, 1, 0]"
    "tokens_sampled budget_stream = [1, 3]" "tokens_sampled refused_stream = [1]"
    "length (tokens_sampled budget_run) = length (tokens_sampled used_budget_run)"
    by (simp_all add: cancelled_run_def full_run_def budget_stream_def refused_stream_def
          used_budget_run_def)
  note det = generation_deterministic [OF same seeded]
  from det [where ?cr1.0 = "cancel_before 1" and ?cr2.0 = never and prompt = "''Hi''"
              and maxTokens = 5 and temperature = "4 / 5" and topP = "9 / 10"
              and stopStrings = "Some [''!'']" and ?out1.0 = cancelled_run and ?out2.0 = full_run]
    seeded_cancelled seeded_full
  have 1: "prefix (tokens_sampled cancelled_run) (tokens_sampled full_run) \<or>
           prefix (tokens_sampled full_run) (tokens_sampled cancelled_run)"
    by blast
  from det [where ?cr1.0 = never and ?cr2.0 = never and prompt = "''Hi''"
              and maxTokens = 2 and temperature = "4 / 5" and topP = "9 / 10"
              and stopStrings = "Some [''!'']" and ?out1.0 = budget_run
              and ?out2.0 = used_budget_run]
    seeded_budget seeded_used_budget toks(5)
  have 2: "tokens_sampled budget_run = tokens_sampled used_budget_run"
    "text_out budget_run = text_out used_budget_run"
    "exit_by budget_run = exit_by used_budget_run"
    by blast+
  from det [where ?J1.0 = accepting and ?J2.0 = refusing and ?cr1.0 = never and ?cr2.0 = never
              and prompt = "''Hi''" and maxTokens = 2 and temperature = "4 / 5"
              and topP = "9 / 10" and stopStrings = "Some [''!'']"
              and ?sout1.0 = budget_stream and ?sout2.0 = refused_stream]
    seeded_stream_budget seeded_refused
  have 3: "prefix (tokens_sampled budget_stream) (tokens_sampled refused_stream) \<or>
           prefix (tokens_sampled refused_stream) (tokens_sampled budget_stream)"
    by blast
  from same differ unseeded matters seeded_cancelled seeded_full toks(1,2) 1 seeded_budget seeded_used_budget 2
    seeded_stream_budget seeded_refused toks(3,4) 3
  show ?thesis by (intro conjI)
qed

end
